theory Spec2Isabelle
  imports Main "HOL-Library.Sublist"
begin

section \<open>Strings and slash-separated paths\<close>

text \<open>
  Go strings are byte sequences; they are modelled as \<open>string\<close>.  The functions of this
  section are the parts of the Go packages \<open>strings\<close>, \<open>path\<close> and \<open>path/filepath\<close>
  (Unix flavour: the separator is the slash and there is no volume name) that the
  program calls.
\<close>

definition HasPrefix :: "string \<Rightarrow> string \<Rightarrow> bool" where
  "HasPrefix s pre = (take (length pre) s = pre)"

definition HasSuffix :: "string \<Rightarrow> string \<Rightarrow> bool" where
  "HasSuffix s suf = (length suf \<le> length s \<and> drop (length s - length suf) s = suf)"

definition TrimPrefix :: "string \<Rightarrow> string \<Rightarrow> string" where
  "TrimPrefix s pre = (if HasPrefix s pre then drop (length pre) s else s)"

text \<open>\<open>split_slash\<close> cuts a string at every slash; \<open>join_slash\<close> is \<open>strings.Join(_, "/")\<close>.\<close>

fun split_slash :: "string \<Rightarrow> string list" where
  "split_slash [] = [[]]"
| "split_slash (c # cs) =
     (if c = CHR ''/'' then [] # split_slash cs
      else (case split_slash cs of
              [] \<Rightarrow> [[c]]
            | x # xs \<Rightarrow> (c # x) # xs))"

fun join_slash :: "string list \<Rightarrow> string" where
  "join_slash [] = []"
| "join_slash [x] = x"
| "join_slash (x # y # ys) = x @ ''/'' @ join_slash (y # ys)"

text \<open>
  \<open>path.Clean\<close>: empty elements and \<open>.\<close> are dropped, \<open>..\<close> removes the element before
  it, is dropped at the root of a rooted path and is kept at the start of an unrooted
  one.  \<open>clean_elems\<close> works on the elements, keeping the cleaned elements so far.
\<close>

fun clean_elems :: "bool \<Rightarrow> string list \<Rightarrow> string list \<Rightarrow> string list" where
  "clean_elems rooted acc [] = acc"
| "clean_elems rooted acc (e # es) =
     (if e = [] \<or> e = ''.'' then clean_elems rooted acc es
      else if e = ''..'' then
        (if acc \<noteq> [] \<and> last acc \<noteq> ''..'' then clean_elems rooted (butlast acc) es
         else if rooted then clean_elems rooted acc es
         else clean_elems rooted (acc @ [e]) es)
      else clean_elems rooted (acc @ [e]) es)"

definition IsAbs :: "string \<Rightarrow> bool" where
  "IsAbs p = HasPrefix p ''/''"

definition Clean :: "string \<Rightarrow> string" where
  "Clean p =
     (if p = [] then ''.''
      else let out = clean_elems (IsAbs p) [] (split_slash p)
           in if IsAbs p then ''/'' @ join_slash out
              else if out = [] then ''.'' else join_slash out)"

text \<open>
  \<open>path.Join\<close> and \<open>filepath.Join\<close>: leading empty elements are ignored, the rest is
  joined with slashes and cleaned; the result is empty when every element is.
\<close>

definition Join :: "string list \<Rightarrow> string" where
  "Join elem =
     (case dropWhile (\<lambda>e. e = []) elem of
        [] \<Rightarrow> []
      | es \<Rightarrow> Clean (join_slash es))"

text \<open>\<open>fs.ValidPath\<close>: \<open>.\<close>, or non-empty elements none of which is \<open>.\<close> or \<open>..\<close>.\<close>

definition valid_elem :: "string \<Rightarrow> bool" where
  "valid_elem e = (e \<noteq> [] \<and> e \<noteq> ''.'' \<and> e \<noteq> ''..'' \<and> CHR ''/'' \<notin> set e)"

definition ValidPath :: "string \<Rightarrow> bool" where
  "ValidPath name = (name = ''.'' \<or> list_all valid_elem (split_slash name))"

section \<open>Errors\<close>

text \<open>
  A Go \<open>error\<close> is a value.  \<open>PathError op path err\<close> is \<open>fs.PathError\<close>;
  \<open>Errorf format args w\<close> is the result of \<open>fmt.Errorf\<close> with the format string of the
  source, its string and integer arguments in order, and the error wrapped by \<open>%w\<close>, if
  any.  No function of the program returns \<open>fs.SkipDir\<close> or \<open>fs.SkipAll\<close>.
\<close>

datatype arg = S string | N nat

datatype error =
    ErrNotExist
  | ErrExist
  | ENOTDIR
  | EISDIR
  | EACCES
  | ENOTEMPTY
  | ErrText string
  | PathError string string error
  | Errorf string "arg list" "error option"

section \<open>The embedded asset tree\<close>

text \<open>
  \<open>embed.FS\<close> is a read-only tree of named files and directories.  The value of type
  \<open>embed_FS\<close> is the list of the entries of its root directory; \<open>ReadDir\<close> returns
  the entries of a directory in the stored order.
\<close>

type_synonym bytes = string

datatype asset = AFile string bytes | ADir string "asset list"

type_synonym embed_FS = "asset list"

fun asset_name :: "asset \<Rightarrow> string" where
  "asset_name (AFile n c) = n"
| "asset_name (ADir n cs) = n"

fun IsDir :: "asset \<Rightarrow> bool" where
  "IsDir (AFile n c) = False"
| "IsDir (ADir n cs) = True"

fun find_entry :: "asset list \<Rightarrow> string \<Rightarrow> asset option" where
  "find_entry [] n = None"
| "find_entry (a # as) n = (if asset_name a = n then Some a else find_entry as n)"

fun descend :: "asset \<Rightarrow> string list \<Rightarrow> asset option" where
  "descend a [] = Some a"
| "descend (AFile n c) (e # es) = None"
| "descend (ADir n cs) (e # es) =
     (case find_entry cs e of None \<Rightarrow> None | Some a \<Rightarrow> descend a es)"

text \<open>\<open>embed.FS.lookup\<close>: an invalid name finds nothing, \<open>.\<close> is the root.\<close>

definition embed_lookup :: "embed_FS \<Rightarrow> string \<Rightarrow> asset option" where
  "embed_lookup fsys name =
     (if \<not> ValidPath name then None
      else if name = ''.'' then Some (ADir ''.'' fsys)
      else descend (ADir ''.'' fsys) (split_slash name))"

definition embed_Stat :: "embed_FS \<Rightarrow> string \<Rightarrow> error + asset" where
  "embed_Stat fsys name =
     (case embed_lookup fsys name of
        None \<Rightarrow> Inl (PathError ''open'' name ErrNotExist)
      | Some a \<Rightarrow> Inr a)"

definition embed_ReadFile :: "embed_FS \<Rightarrow> string \<Rightarrow> error + bytes" where
  "embed_ReadFile fsys name =
     (case embed_lookup fsys name of
        None \<Rightarrow> Inl (PathError ''open'' name ErrNotExist)
      | Some (ADir n cs) \<Rightarrow> Inl (PathError ''read'' name (ErrText ''is a directory''))
      | Some (AFile n c) \<Rightarrow> Inr c)"

definition embed_ReadDir :: "embed_FS \<Rightarrow> string \<Rightarrow> error + asset list" where
  "embed_ReadDir fsys name =
     (case embed_lookup fsys name of
        None \<Rightarrow> Inl (PathError ''open'' name ErrNotExist)
      | Some (AFile n c) \<Rightarrow> Inl (PathError ''read'' name (ErrText ''not a directory''))
      | Some (ADir n cs) \<Rightarrow> Inr cs)"

section \<open>Template manager\<close>

text \<open>
  \<open>fs.WalkDir\<close> calls the function \<open>fn\<close> on the root and then, parent first, on every
  entry below it; a non-nil result of \<open>fn\<close> ends the walk and is the result of the walk.
  The state the callback mutates is passed through.  A directory the walk has reached
  can always be listed in \<open>embed.FS\<close>, so the second call that would report a failed
  listing does not occur.
\<close>

type_synonym 'st WalkDirFunc =
  "string \<Rightarrow> asset option \<Rightarrow> error option \<Rightarrow> 'st \<Rightarrow> error option \<times> 'st"

fun walkDir :: "'st WalkDirFunc \<Rightarrow> string \<Rightarrow> asset \<Rightarrow> 'st \<Rightarrow> error option \<times> 'st"
  and walkDirs :: "'st WalkDirFunc \<Rightarrow> string \<Rightarrow> asset list \<Rightarrow> 'st \<Rightarrow> error option \<times> 'st"
where
  "walkDir fn name (AFile n c) st = fn name (Some (AFile n c)) None st"
| "walkDir fn name (ADir n cs) st =
     (case fn name (Some (ADir n cs)) None st of
        (Some err, st') \<Rightarrow> (Some err, st')
      | (None, st') \<Rightarrow> walkDirs fn name cs st')"
| "walkDirs fn name [] st = (None, st)"
| "walkDirs fn name (d1 # ds) st =
     (case walkDir fn (Join [name, asset_name d1]) d1 st of
        (Some err, st') \<Rightarrow> (Some err, st')
      | (None, st') \<Rightarrow> walkDirs fn name ds st')"

definition WalkDir :: "embed_FS \<Rightarrow> string \<Rightarrow> 'st WalkDirFunc \<Rightarrow> 'st \<Rightarrow> error option \<times> 'st" where
  "WalkDir fsys root fn st =
     (case embed_Stat fsys root of
        Inl err \<Rightarrow> fn root None (Some err) st
      | Inr d \<Rightarrow> walkDir fn root d st)"

record TemplateManager =
  tm_fs :: embed_FS
  tm_prefix :: string

definition NewTemplateManager :: "embed_FS \<Rightarrow> string \<Rightarrow> TemplateManager" where
  "NewTemplateManager embedFS pre = \<lparr>tm_fs = embedFS, tm_prefix = pre\<rparr>"

definition Walk_fn :: "TemplateManager \<Rightarrow> 'st WalkDirFunc \<Rightarrow> 'st WalkDirFunc" where
  "Walk_fn tm fn path d err st =
     (if err \<noteq> None then fn path d err st
      else if path = tm_prefix tm then (None, st)
      else let relPath = TrimPrefix path (tm_prefix tm @ ''/'');
               relPath = (if relPath = path then path else relPath)
           in fn relPath d None st)"

definition Walk :: "TemplateManager \<Rightarrow> 'st WalkDirFunc \<Rightarrow> 'st \<Rightarrow> error option \<times> 'st" where
  "Walk tm fn st = WalkDir (tm_fs tm) (tm_prefix tm) (Walk_fn tm fn) st"

definition ReadFile :: "TemplateManager \<Rightarrow> string \<Rightarrow> error + bytes" where
  "ReadFile tm relPath =
     (let fullPath = Join [tm_prefix tm, relPath]
      in case embed_ReadFile (tm_fs tm) fullPath of
           Inl err \<Rightarrow> Inl (Errorf ''failed to read embedded file %s: %w'' [S fullPath] (Some err))
         | Inr data \<Rightarrow> Inr data)"

definition HasTemplates :: "TemplateManager \<Rightarrow> bool" where
  "HasTemplates tm =
     (case embed_ReadDir (tm_fs tm) (tm_prefix tm) of
        Inl err \<Rightarrow> False
      | Inr entries \<Rightarrow> length entries > 0)"

text \<open>\<open>ListTemplates\<close> collects the paths of the file entries the walk reports.\<close>

definition ListTemplates_fn :: "(string list) WalkDirFunc" where
  "ListTemplates_fn path entry err templates =
     (case err of
        Some e \<Rightarrow> (Some e, templates)
      | None \<Rightarrow>
          (case entry of
             Some (AFile n c) \<Rightarrow> (None, templates @ [path])
           | _ \<Rightarrow> (None, templates)))"

definition ListTemplates :: "TemplateManager \<Rightarrow> error + string list" where
  "ListTemplates tm =
     (case Walk tm ListTemplates_fn [] of
        (Some err, templates) \<Rightarrow> Inl (Errorf ''failed to list templates: %w'' [] (Some err))
      | (None, templates) \<Rightarrow> Inr templates)"

text \<open>File modes are the numbers Go writes in octal: \<open>0755 = 493\<close>, \<open>0644 = 420\<close>.\<close>

type_synonym FileMode = nat

definition GetDefaultFileMode :: "TemplateManager \<Rightarrow> string \<Rightarrow> FileMode" where
  "GetDefaultFileMode tm relPath =
     (if HasSuffix relPath ''.sh'' \<or> HasSuffix relPath ''.bash'' then 493 else 420)"

definition GetDefaultDirMode :: "TemplateManager \<Rightarrow> FileMode" where
  "GetDefaultDirMode tm = 493"

section \<open>The host file system\<close>

text \<open>
  A host path is the list of the elements of a cleaned path, read from the root
  directory (the working directory is the root, there are no symbolic links).  The
  host is a map from paths to nodes; the root is a directory that always exists.
  Every node carries its permission bits.  The process owns every node and is not the
  superuser: it may add or remove an entry of a directory, and overwrite a regular file,
  only if the owner's write bit (\<open>0200 = 128\<close>) of that directory or file is set.
  Every directory can be searched, new nodes get exactly the mode asked for (the umask
  is zero), and failures of the device (read-only or full file system, I/O errors) are
  not modelled.
\<close>

type_synonym hostpath = "string list"

datatype node = File bytes FileMode | Dir FileMode

type_synonym host = "hostpath \<rightharpoonup> node"

definition writable :: "FileMode \<Rightarrow> bool" where
  "writable m = ((m div 128) mod 2 = 1)"

fun node_IsDir :: "node \<Rightarrow> bool" where
  "node_IsDir (File c m) = False"
| "node_IsDir (Dir m) = True"

definition host_path :: "string \<Rightarrow> hostpath" where
  "host_path s = filter (\<lambda>e. e \<noteq> [] \<and> e \<noteq> ''.'') (split_slash s)"

definition show_path :: "hostpath \<Rightarrow> string" where
  "show_path p = ''/'' @ join_slash p"

text \<open>Path resolution walks the elements from the root.\<close>

fun resolve :: "host \<Rightarrow> hostpath \<Rightarrow> node \<Rightarrow> string list \<Rightarrow> error + node" where
  "resolve h cur n [] = Inr n"
| "resolve h cur (File c m) (x # xs) = Inl ENOTDIR"
| "resolve h cur (Dir m) (x # xs) =
     (case h (cur @ [x]) of
        None \<Rightarrow> Inl ErrNotExist
      | Some n' \<Rightarrow> resolve h (cur @ [x]) n' xs)"

definition lookup :: "host \<Rightarrow> hostpath \<Rightarrow> error + node" where
  "lookup h p = resolve h [] (Dir 493) p"

definition os_Stat :: "host \<Rightarrow> hostpath \<Rightarrow> error + node" where
  "os_Stat h p =
     (case lookup h p of
        Inl errno \<Rightarrow> Inl (PathError ''stat'' (show_path p) errno)
      | Inr n \<Rightarrow> Inr n)"

definition os_Mkdir :: "hostpath \<Rightarrow> FileMode \<Rightarrow> host \<Rightarrow> error option \<times> host" where
  "os_Mkdir p perm h =
     (if p = [] then (Some (PathError ''mkdir'' (show_path p) ErrExist), h)
      else case lookup h (butlast p) of
             Inl errno \<Rightarrow> (Some (PathError ''mkdir'' (show_path p) errno), h)
           | Inr (File c m) \<Rightarrow> (Some (PathError ''mkdir'' (show_path p) ENOTDIR), h)
           | Inr (Dir m) \<Rightarrow>
               (case h p of
                  Some n \<Rightarrow> (Some (PathError ''mkdir'' (show_path p) ErrExist), h)
                | None \<Rightarrow>
                    if \<not> writable m then (Some (PathError ''mkdir'' (show_path p) EACCES), h)
                    else (None, h(p \<mapsto> Dir perm))))"

text \<open>
  \<open>os.MkdirAll\<close>: success if the path is a directory, \<open>ENOTDIR\<close> if it is something
  else; otherwise the parent is created first (unless it is the root) and then the
  directory itself.
\<close>

function os_MkdirAll :: "hostpath \<Rightarrow> FileMode \<Rightarrow> host \<Rightarrow> error option \<times> host" where
  "os_MkdirAll p perm h =
     (case os_Stat h p of
        Inr dir \<Rightarrow>
          (if node_IsDir dir then (None, h)
           else (Some (PathError ''mkdir'' (show_path p) ENOTDIR), h))
      | Inl e \<Rightarrow>
          (case (if butlast p \<noteq> [] then os_MkdirAll (butlast p) perm h else (None, h)) of
             (Some err, h1) \<Rightarrow> (Some err, h1)
           | (None, h1) \<Rightarrow>
               (case os_Mkdir p perm h1 of
                  (Some err, h2) \<Rightarrow>
                    (case os_Stat h2 p of
                       Inr dir \<Rightarrow> if node_IsDir dir then (None, h2) else (Some err, h2)
                     | Inl e1 \<Rightarrow> (Some err, h2))
                | (None, h2) \<Rightarrow> (None, h2))))"
  by pat_completeness auto
termination
proof (relation "measure (\<lambda>(p, perm, h). length p)")
  show "wf (measure (\<lambda>(p, perm, h). length p))" by simp
next
  fix p :: hostpath and perm :: FileMode and h :: host and e :: error
  assume "butlast p \<noteq> []"
  then have "p \<noteq> []" by auto
  then show "((butlast p, perm, h), (p, perm, h)) \<in> measure (\<lambda>(p, perm, h). length p)"
    by simp
qed

text \<open>
  \<open>os.WriteFile\<close> opens with create and truncate: an existing regular file is
  overwritten (keeping its mode) if it is writable, a missing one is created with the
  given mode if the directory is writable.
\<close>

definition os_WriteFile :: "hostpath \<Rightarrow> bytes \<Rightarrow> FileMode \<Rightarrow> host \<Rightarrow> error option \<times> host" where
  "os_WriteFile p data perm h =
     (if p = [] then (Some (PathError ''open'' (show_path p) EISDIR), h)
      else case lookup h (butlast p) of
             Inl errno \<Rightarrow> (Some (PathError ''open'' (show_path p) errno), h)
           | Inr (File c m) \<Rightarrow> (Some (PathError ''open'' (show_path p) ENOTDIR), h)
           | Inr (Dir m) \<Rightarrow>
               (case h p of
                  Some (Dir m') \<Rightarrow> (Some (PathError ''open'' (show_path p) EISDIR), h)
                | Some (File c' m') \<Rightarrow>
                    if \<not> writable m' then (Some (PathError ''open'' (show_path p) EACCES), h)
                    else (None, h(p \<mapsto> File data m'))
                | None \<Rightarrow>
                    if \<not> writable m then (Some (PathError ''open'' (show_path p) EACCES), h)
                    else (None, h(p \<mapsto> File data perm))))"

text \<open>\<open>os.Create\<close> is the same open with no data written and mode \<open>0666 = 438\<close>.\<close>

definition os_Create :: "hostpath \<Rightarrow> host \<Rightarrow> error option \<times> host" where
  "os_Create p h = os_WriteFile p [] 438 h"

text \<open>
  \<open>os.Remove\<close> unlinks a regular file, or removes a directory that has no entries; both
  need the directory that holds the entry to be writable.  The root cannot be removed.
\<close>

definition has_entries :: "host \<Rightarrow> hostpath \<Rightarrow> bool" where
  "has_entries h p = (\<exists>x. h (p @ [x]) \<noteq> None)"

definition os_Remove :: "hostpath \<Rightarrow> host \<Rightarrow> error option \<times> host" where
  "os_Remove p h =
     (case lookup h p of
        Inl errno \<Rightarrow> (Some (PathError ''remove'' (show_path p) errno), h)
      | Inr n \<Rightarrow>
          if p = [] then (Some (PathError ''remove'' (show_path p) EACCES), h)
          else if node_IsDir n \<and> has_entries h p
          then (Some (PathError ''remove'' (show_path p) ENOTEMPTY), h)
          else (case lookup h (butlast p) of
                  Inr (Dir m) \<Rightarrow>
                    if \<not> writable m then (Some (PathError ''remove'' (show_path p) EACCES), h)
                    else (None, h(p := None))
                | _ \<Rightarrow> (Some (PathError ''remove'' (show_path p) ENOTDIR), h)))"

section \<open>File system port\<close>

text \<open>
  The interface \<open>FileSystem\<close> has two implementations: the real one and the dry-run
  one, which wraps another file system.  \<open>filepath.Dir\<close> of a host path drops its last
  element.  The notices the dry-run variant sends to the logger are not modelled.
\<close>

datatype FileSystem = OSFileSystem | DryRunFileSystem FileSystem

definition filepath_Dir :: "hostpath \<Rightarrow> hostpath" where
  "filepath_Dir p = butlast p"

fun Exists :: "FileSystem \<Rightarrow> host \<Rightarrow> hostpath \<Rightarrow> bool" where
  "Exists OSFileSystem h path = (case os_Stat h path of Inl err \<Rightarrow> False | Inr info \<Rightarrow> True)"
| "Exists (DryRunFileSystem wrapped) h path = Exists wrapped h path"

fun Stat :: "FileSystem \<Rightarrow> host \<Rightarrow> hostpath \<Rightarrow> error + node" where
  "Stat OSFileSystem h path = os_Stat h path"
| "Stat (DryRunFileSystem wrapped) h path = Stat wrapped h path"

fun CreateDir :: "FileSystem \<Rightarrow> hostpath \<Rightarrow> FileMode \<Rightarrow> host \<Rightarrow> error option \<times> host" where
  "CreateDir OSFileSystem path perm h =
     (if Exists OSFileSystem h path then
        (case os_Stat h path of
           Inl err \<Rightarrow> (Some (Errorf ''failed to stat existing path: %w'' [] (Some err)), h)
         | Inr info \<Rightarrow>
             if \<not> node_IsDir info
             then (Some (Errorf ''path exists but is not a directory: %s'' [S (show_path path)] None), h)
             else (None, h))
      else os_MkdirAll path perm h)"
| "CreateDir (DryRunFileSystem wrapped) path perm h =
     (if Exists (DryRunFileSystem wrapped) h path then
        (case Stat wrapped h path of
           Inl err \<Rightarrow> (Some err, h)
         | Inr info \<Rightarrow>
             if \<not> node_IsDir info
             then (Some (Errorf ''path exists but is not a directory: %s'' [S (show_path path)] None), h)
             else (None, h))
      else (None, h))"

fun CreateFile :: "FileSystem \<Rightarrow> hostpath \<Rightarrow> bytes \<Rightarrow> FileMode \<Rightarrow> host \<Rightarrow> error option \<times> host" where
  "CreateFile OSFileSystem path content perm h =
     (if Exists OSFileSystem h path then
        (case os_Stat h path of
           Inl err \<Rightarrow> (Some (Errorf ''failed to stat existing path: %w'' [] (Some err)), h)
         | Inr info \<Rightarrow>
             if node_IsDir info
             then (Some (Errorf ''path exists but is a directory: %s'' [S (show_path path)] None), h)
             else (None, h))
      else
        (case CreateDir OSFileSystem (filepath_Dir path) 493 h of
           (Some err, h1) \<Rightarrow> (Some (Errorf ''failed to create parent directory: %w'' [] (Some err)), h1)
         | (None, h1) \<Rightarrow> os_WriteFile path content perm h1))"
| "CreateFile (DryRunFileSystem wrapped) path content perm h =
     (if Exists (DryRunFileSystem wrapped) h path then
        (case Stat wrapped h path of
           Inl err \<Rightarrow> (Some err, h)
         | Inr info \<Rightarrow>
             if node_IsDir info
             then (Some (Errorf ''path exists but is a directory: %s'' [S (show_path path)] None), h)
             else (None, h))
      else (None, h))"

section \<open>Engine\<close>

record Config =
  TargetDir :: string
  DryRun :: bool
  Verbose :: bool
  NoColor :: bool
  ShowHelp :: bool
  ShowVersion :: bool

text \<open>The counters are Go \<open>int\<close>s that are only incremented, once per entry at most.\<close>

record Statistics =
  FilesCreated :: nat
  FilesSkipped :: nat
  DirsCreated :: nat
  DirsSkipped :: nat
  Errors :: "error list"

record Engine =
  templateFS :: embed_FS
  config :: Config
  fs :: FileSystem
  tmpl :: TemplateManager
  stats :: Statistics

definition NewEngine :: "embed_FS \<Rightarrow> Config \<Rightarrow> Engine" where
  "NewEngine embedFS cfg =
     \<lparr>templateFS = embedFS,
      config = cfg,
      fs = (if DryRun cfg then DryRunFileSystem OSFileSystem else OSFileSystem),
      tmpl = NewTemplateManager embedFS ''.claude'',
      stats = \<lparr>FilesCreated = 0, FilesSkipped = 0, DirsCreated = 0, DirsSkipped = 0, Errors = []\<rparr>\<rparr>"

text \<open>
  The methods below mutate \<open>e.stats\<close> and the host: both are passed in and returned,
  \<open>e\<close> supplies the fields that do not change.  Calls of the logger are left out.
\<close>

definition processDirectory ::
  "Engine \<Rightarrow> hostpath \<Rightarrow> Statistics \<times> host \<Rightarrow> error option \<times> Statistics \<times> host" where
  "processDirectory e targetPath = (\<lambda>(st, h).
     if Exists (fs e) h targetPath then
       (case Stat (fs e) h targetPath of
          Inl err \<Rightarrow> (Some (Errorf ''failed to stat %s: %w'' [S (show_path targetPath)] (Some err)), st, h)
        | Inr info \<Rightarrow>
            if \<not> node_IsDir info then
              (let err = Errorf ''path exists but is not a directory: %s'' [S (show_path targetPath)] None
               in (Some err, st\<lparr>Errors := Errors st @ [err]\<rparr>, h))
            else (None, st\<lparr>DirsSkipped := DirsSkipped st + 1\<rparr>, h))
     else
       (case CreateDir (fs e) targetPath (GetDefaultDirMode (tmpl e)) h of
          (Some err, h') \<Rightarrow> (Some err, st\<lparr>Errors := Errors st @ [err]\<rparr>, h')
        | (None, h') \<Rightarrow> (None, st\<lparr>DirsCreated := DirsCreated st + 1\<rparr>, h')))"

definition processFile ::
  "Engine \<Rightarrow> string \<Rightarrow> hostpath \<Rightarrow> Statistics \<times> host \<Rightarrow> error option \<times> Statistics \<times> host" where
  "processFile e sourcePath targetPath = (\<lambda>(st, h).
     if Exists (fs e) h targetPath then
       (case Stat (fs e) h targetPath of
          Inl err \<Rightarrow> (Some (Errorf ''failed to stat %s: %w'' [S (show_path targetPath)] (Some err)), st, h)
        | Inr info \<Rightarrow>
            if node_IsDir info then
              (let err = Errorf ''path exists but is a directory: %s'' [S (show_path targetPath)] None
               in (Some err, st\<lparr>Errors := Errors st @ [err]\<rparr>, h))
            else (None, st\<lparr>FilesSkipped := FilesSkipped st + 1\<rparr>, h))
     else
       (case ReadFile (tmpl e) sourcePath of
          Inl err \<Rightarrow> (Some err, st\<lparr>Errors := Errors st @ [err]\<rparr>, h)
        | Inr content \<Rightarrow>
            (let mode = GetDefaultFileMode (tmpl e) sourcePath
             in case CreateFile (fs e) targetPath content mode h of
                  (Some err, h') \<Rightarrow> (Some err, st\<lparr>Errors := Errors st @ [err]\<rparr>, h')
                | (None, h') \<Rightarrow> (None, st\<lparr>FilesCreated := FilesCreated st + 1\<rparr>, h'))))"

text \<open>
  The function literal that \<open>Run\<close> passes to \<open>Walk\<close>.  \<open>filepath.FromSlash\<close> is the
  identity; the joined string is read as a host path.  \<open>WalkDir\<close> never passes a nil
  entry together with a nil error; the method call on it would panic.
\<close>

definition targetPath_of :: "Engine \<Rightarrow> string \<Rightarrow> hostpath" where
  "targetPath_of e path = host_path (Join [TargetDir (config e), ''.claude'', path])"

definition Run_fn :: "Engine \<Rightarrow> (Statistics \<times> host) WalkDirFunc" where
  "Run_fn e path entry err = (\<lambda>(st, h).
     case err of
       Some er \<Rightarrow> (None, st\<lparr>Errors := Errors st @ [er]\<rparr>, h)
     | None \<Rightarrow>
         (let targetPath = targetPath_of e path
          in case entry of
               None \<Rightarrow> (Some (ErrText ''panic: nil pointer dereference''), st, h)
             | Some d \<Rightarrow>
                 if IsDir d then processDirectory e targetPath (st, h)
                 else processFile e path targetPath (st, h)))"

definition Run :: "Engine \<Rightarrow> host \<Rightarrow> error option \<times> Engine \<times> host" where
  "Run e h =
     (if \<not> HasTemplates (tmpl e)
      then (Some (Errorf ''no template files found in embedded .claude directory'' [] None), e, h)
      else
        (case Walk (tmpl e) (Run_fn e) (stats e, h) of
           (Some err, st, h') \<Rightarrow>
             (Some (Errorf ''failed to process templates: %w'' [] (Some err)), e\<lparr>stats := st\<rparr>, h')
         | (None, st, h') \<Rightarrow>
             if length (Errors st) > 0
             then (Some (Errorf ''completed with %d errors'' [N (length (Errors st))] None),
                   e\<lparr>stats := st\<rparr>, h')
             else (None, e\<lparr>stats := st\<rparr>, h')))"

section \<open>Configuration validation\<close>

fun IsNotExist :: "error \<Rightarrow> bool" where
  "IsNotExist ErrNotExist = True"
| "IsNotExist (PathError op path err) = IsNotExist err"
| "IsNotExist err = False"

text \<open>\<open>filepath.Abs\<close>, the working directory being the root.\<close>

definition Abs :: "string \<Rightarrow> string" where
  "Abs path = (if IsAbs path then Clean path else Join [''/'', path])"

definition validateConfig :: "Config \<Rightarrow> host \<Rightarrow> error option \<times> Config \<times> host" where
  "validateConfig cfg h =
     (let absPath = Abs (TargetDir cfg);
          cfg = cfg\<lparr>TargetDir := absPath\<rparr>
      in case os_Stat h (host_path (TargetDir cfg)) of
           Inl err \<Rightarrow>
             if IsNotExist err
             then (Some (Errorf ''target directory does not exist: %s'' [S (TargetDir cfg)] None), cfg, h)
             else (Some (Errorf ''failed to access target directory: %w'' [] (Some err)), cfg, h)
         | Inr info \<Rightarrow>
             if \<not> node_IsDir info
             then (Some (Errorf ''target path is not a directory: %s'' [S (TargetDir cfg)] None), cfg, h)
             else if \<not> DryRun cfg then
               (let testFile = host_path (Join [TargetDir cfg, ''.cc-init-test''])
                in case os_Create testFile h of
                     (Some err, h1) \<Rightarrow>
                       (Some (Errorf ''no write permission in target directory: %w'' [] (Some err)), cfg, h1)
                   | (None, h1) \<Rightarrow> (None, cfg, snd (os_Remove testFile h1)))
             else (None, cfg, h))"

section \<open>Notions used in the statements\<close>

text \<open>
  \<open>ext h h'\<close>: everything that can be reached in the host \<open>h\<close> is in \<open>h'\<close> with the
  same kind, content and mode.
\<close>

definition ext :: "host \<Rightarrow> host \<Rightarrow> bool" where
  "ext h h' = (\<forall>q n. lookup h q = Inr n \<longrightarrow> lookup h' q = Inr n)"

text \<open>
  The entries in the order in which \<open>walkDir\<close> reports them, \<open>run_list\<close> calling a
  function on such a list as the walk does, and the entries that \<open>Walk\<close> passes on:
  the root is left out and the prefix is trimmed.
\<close>

fun flat :: "string \<Rightarrow> asset \<Rightarrow> (string \<times> asset) list"
  and flats :: "string \<Rightarrow> asset list \<Rightarrow> (string \<times> asset) list"
where
  "flat name (AFile n c) = [(name, AFile n c)]"
| "flat name (ADir n cs) = (name, ADir n cs) # flats name cs"
| "flats name [] = []"
| "flats name (d1 # ds) = flat (Join [name, asset_name d1]) d1 @ flats name ds"

fun run_list :: "'st WalkDirFunc \<Rightarrow> (string \<times> asset) list \<Rightarrow> 'st \<Rightarrow> error option \<times> 'st" where
  "run_list fn [] st = (None, st)"
| "run_list fn ((path, d) # xs) st =
     (case fn path (Some d) None st of
        (Some err, st') \<Rightarrow> (Some err, st')
      | (None, st') \<Rightarrow> run_list fn xs st')"

definition entries :: "TemplateManager \<Rightarrow> (string \<times> asset) list" where
  "entries tm =
     (case embed_Stat (tm_fs tm) (tm_prefix tm) of
        Inl err \<Rightarrow> []
      | Inr d \<Rightarrow>
          map (\<lambda>(path, a). (TrimPrefix path (tm_prefix tm @ ''/''), a))
            (filter (\<lambda>(path, a). path \<noteq> tm_prefix tm) (flat (tm_prefix tm) d)))"

text \<open>The asset tree, target directory and host of the scenario used in the examples.\<close>

definition example_assets :: embed_FS where
  "example_assets =
     [ADir ''.claude''
        [ADir ''commands'' [AFile ''ask.md'' ''hello''],
         AFile ''settings.json'' ''{}'']]"

definition example_config :: Config where
  "example_config =
     \<lparr>TargetDir = ''/t'', DryRun = False, Verbose = False, NoColor = False,
      ShowHelp = False, ShowVersion = False\<rparr>"

definition example_host :: host where
  "example_host = [[''t''] \<mapsto> Dir 493]"

definition nice :: "string \<Rightarrow> bool" where
  "nice e = (e \<noteq> [] \<and> e \<noteq> ''.'' \<and> CHR ''/'' \<notin> set e)"

definition target_root :: "string \<Rightarrow> hostpath" where
  "target_root T = clean_elems (IsAbs T) [] (split_slash T)"

fun wf_asset :: "asset \<Rightarrow> bool" and wf_assets :: "asset list \<Rightarrow> bool" where
  "wf_asset (AFile n c) = valid_elem n"
| "wf_asset (ADir n cs) = (valid_elem n \<and> wf_assets cs)"
| "wf_assets [] = True"
| "wf_assets (a # as) = (wf_asset a \<and> asset_name a \<notin> set (map asset_name as) \<and> wf_assets as)"

fun rel_flat :: "string list \<Rightarrow> asset \<Rightarrow> (string list \<times> asset) list"
  and rel_flats :: "string list \<Rightarrow> asset list \<Rightarrow> (string list \<times> asset) list"
where
  "rel_flat p (AFile n c) = [(p, AFile n c)]"
| "rel_flat p (ADir n cs) = (p, ADir n cs) # rel_flats p cs"
| "rel_flats p [] = []"
| "rel_flats p (d1 # ds) = rel_flat (p @ [asset_name d1]) d1 @ rel_flats p ds"

fun fresh :: "hostpath list \<Rightarrow> bool" where
  "fresh [] = True"
| "fresh (p # ps) = ((\<forall>q\<in>set ps. \<not> prefix q p) \<and> fresh ps)"




section \<open>Path resolution on the host\<close>

declare os_MkdirAll.simps [simp del]

lemma resolve_snoc:
  "resolve h cur n (xs @ [x]) =
     (case resolve h cur n xs of
        Inl e \<Rightarrow> Inl e
      | Inr (File c m) \<Rightarrow> Inl ENOTDIR
      | Inr (Dir m) \<Rightarrow>
          (case h (cur @ xs @ [x]) of None \<Rightarrow> Inl ErrNotExist | Some n' \<Rightarrow> Inr n'))"
proof (induction xs arbitrary: cur n)
  case Nil
  show ?case by (cases n) (auto split: option.splits)
next
  case (Cons y ys)
  show ?case
  proof (cases n)
    case (File c m)
    then show ?thesis by simp
  next
    case (Dir m)
    then show ?thesis using Cons.IH [of "cur @ [y]"] by (auto split: option.splits)
  qed
qed

lemma lookup_Nil [simp]: "lookup h [] = Inr (Dir 493)"
  by (simp add: lookup_def)

lemma lookup_snoc:
  "lookup h (p @ [x]) =
     (case lookup h p of
        Inl e \<Rightarrow> Inl e
      | Inr (File c m) \<Rightarrow> Inl ENOTDIR
      | Inr (Dir m) \<Rightarrow> (case h (p @ [x]) of None \<Rightarrow> Inl ErrNotExist | Some n' \<Rightarrow> Inr n'))"
  by (simp add: lookup_def resolve_snoc split: sum.split node.split)

lemma lookup_butlast:
  "p \<noteq> [] \<Longrightarrow> lookup h p =
     (case lookup h (butlast p) of
        Inl e \<Rightarrow> Inl e
      | Inr (File c m) \<Rightarrow> Inl ENOTDIR
      | Inr (Dir m) \<Rightarrow> (case h p of None \<Rightarrow> Inl ErrNotExist | Some n' \<Rightarrow> Inr n'))"
  using lookup_snoc [of h "butlast p" "last p"] by (simp split: sum.split node.split)

text \<open>A path that resolves has only directories above it.\<close>

lemma lookup_prefix_Dir:
  "lookup h q = Inr n \<Longrightarrow> strict_prefix p q \<Longrightarrow> \<exists>m. lookup h p = Inr (Dir m)"
proof (induction q arbitrary: n rule: rev_induct)
  case Nil
  then show ?case by simp
next
  case (snoc x xs)
  from snoc.prems(1) obtain m where d: "lookup h xs = Inr (Dir m)"
    by (auto simp: lookup_snoc split: sum.splits node.splits)
  from snoc.prems(2) have "p = xs \<or> strict_prefix p xs"
    by (auto simp: strict_prefix_def)
  then show ?case using d snoc.IH by blast
qed

text \<open>Writing at a path changes only what is at or below that path.\<close>

lemma lookup_upd_other:
  "\<not> prefix p q \<Longrightarrow> lookup (h(p := v)) q = lookup h q"
proof (induction q rule: rev_induct)
  case Nil
  then show ?case by simp
next
  case (snoc x xs)
  then have "\<not> prefix p xs" and "p \<noteq> xs @ [x]" by auto
  then show ?case using snoc.IH by (simp add: lookup_snoc)
qed

lemma ext_refl [simp]: "ext h h"
  by (simp add: ext_def)

lemma ext_trans: "ext h1 h2 \<Longrightarrow> ext h2 h3 \<Longrightarrow> ext h1 h3"
  by (simp add: ext_def)

lemma ext_upd:
  assumes "lookup h p = Inl e"
  shows "ext h (h(p := v))"
  unfolding ext_def
proof (intro allI impI)
  fix q n
  assume q: "lookup h q = Inr n"
  have "\<not> prefix p q"
  proof
    assume "prefix p q"
    then consider "p = q" | "strict_prefix p q" by (auto simp: strict_prefix_def)
    then show False
    proof cases
      case 1
      then show False using q assms by simp
    next
      case 2
      then show False using lookup_prefix_Dir [OF q 2] assms by auto
    qed
  qed
  then show "lookup (h(p := v)) q = Inr n" using q by (simp add: lookup_upd_other)
qed

section \<open>Creating directories and files\<close>

lemma node_IsDir_iff: "node_IsDir n \<longleftrightarrow> (\<exists>m. n = Dir m)"
  by (cases n) auto

lemma os_Stat_Inr: "os_Stat h p = Inr n \<longleftrightarrow> lookup h p = Inr n"
  by (simp add: os_Stat_def split: sum.splits)

lemma os_MkdirAll_exists:
  "lookup h p = Inr n \<Longrightarrow>
   os_MkdirAll p perm h =
     (if node_IsDir n then (None, h) else (Some (PathError ''mkdir'' (show_path p) ENOTDIR), h))"
  by (subst os_MkdirAll.simps) (simp add: os_Stat_def)

lemma os_MkdirAll_missing:
  "lookup h p = Inl errno \<Longrightarrow>
   os_MkdirAll p perm h =
     (case (if butlast p \<noteq> [] then os_MkdirAll (butlast p) perm h else (None, h)) of
        (Some err, h1) \<Rightarrow> (Some err, h1)
      | (None, h1) \<Rightarrow>
          (case os_Mkdir p perm h1 of
             (Some err, h2) \<Rightarrow>
               (case lookup h2 p of
                  Inr dir \<Rightarrow> if node_IsDir dir then (None, h2) else (Some err, h2)
                | Inl e1 \<Rightarrow> (Some err, h2))
           | (None, h2) \<Rightarrow> (None, h2)))"
  by (subst os_MkdirAll.simps) (simp add: os_Stat_def split: sum.splits prod.splits option.splits)

lemma os_Stat_Inl: "os_Stat h p = Inl e \<longleftrightarrow> (\<exists>errno. lookup h p = Inl errno \<and> e = PathError ''stat'' (show_path p) errno)"
  by (auto simp add: os_Stat_def split: sum.splits)

lemma os_Mkdir_None:
  "os_Mkdir p perm h = (None, h') \<Longrightarrow>
     h' = h(p \<mapsto> Dir perm) \<and> p \<noteq> [] \<and> h p = None \<and> (\<exists>m. lookup h (butlast p) = Inr (Dir m))"
  by (auto simp: os_Mkdir_def split: if_splits sum.splits node.splits option.splits)

lemma os_Mkdir_Some:
  "os_Mkdir p perm h = (Some e, h') \<Longrightarrow> h' = h"
  by (auto simp: os_Mkdir_def split: if_splits sum.splits node.splits option.splits)

lemma os_Mkdir_ext:
  assumes "os_Mkdir p perm h = (r, h')"
  shows "ext h h'"
proof (cases r)
  case None
  with assms os_Mkdir_None [of p perm h h'] obtain m where
    h': "h' = h(p \<mapsto> Dir perm)" and p: "p \<noteq> []" and n: "h p = None"
    and d: "lookup h (butlast p) = Inr (Dir m)" by auto
  have "lookup h p = Inl ErrNotExist" using p n d by (simp add: lookup_butlast)
  then show ?thesis unfolding h' by (rule ext_upd)
next
  case (Some e)
  with assms os_Mkdir_Some show ?thesis by fastforce
qed

lemma os_Mkdir_result:
  assumes "os_Mkdir p perm h = (None, h')"
  shows "lookup h' p = Inr (Dir perm)"
proof -
  from os_Mkdir_None [OF assms] obtain m where
    h': "h' = h(p \<mapsto> Dir perm)" and p: "p \<noteq> []" and d: "lookup h (butlast p) = Inr (Dir m)" by auto
  have "ext h h'" using assms by (rule os_Mkdir_ext)
  then have "lookup h' (butlast p) = Inr (Dir m)" using d by (simp add: ext_def)
  then show ?thesis using p h' by (simp add: lookup_butlast)
qed

lemma os_Mkdir_frame:
  "os_Mkdir p perm h = (r, h') \<Longrightarrow> q \<noteq> p \<Longrightarrow> h' q = h q"
  by (cases r) (auto dest: os_Mkdir_None os_Mkdir_Some)

lemma os_MkdirAll_props:
  "os_MkdirAll p perm h = (r, h') \<Longrightarrow>
     ext h h' \<and> (r = None \<longrightarrow> (\<exists>m. lookup h' p = Inr (Dir m))) \<and> (\<forall>q. \<not> prefix q p \<longrightarrow> h' q = h q)"
proof (induction p perm h arbitrary: r h' rule: os_MkdirAll.induct)
  case (1 p perm h)
  show ?case
  proof (cases "lookup h p")
    case (Inr dir)
    then show ?thesis using "1.prems"
      by (cases dir) (auto simp: os_MkdirAll_exists)
  next
    case (Inl errno)
    then have st: "os_Stat h p = Inl (PathError ''stat'' (show_path p) errno)"
      by (simp add: os_Stat_def)
    obtain r1 h1 where par: "(if butlast p \<noteq> [] then os_MkdirAll (butlast p) perm h else (None, h)) = (r1, h1)"
      by (cases "if butlast p \<noteq> [] then os_MkdirAll (butlast p) perm h else (None, h)") auto
    have p1: "ext h h1 \<and> (\<forall>q. \<not> prefix q p \<longrightarrow> h1 q = h q)"
    proof (cases "butlast p \<noteq> []")
      case True
      then have "os_MkdirAll (butlast p) perm h = (r1, h1)" using par by simp
      from "1.IH" [OF st True this] have "ext h h1" and "\<forall>q. \<not> prefix q (butlast p) \<longrightarrow> h1 q = h q" by auto
      moreover have "\<And>q. \<not> prefix q p \<Longrightarrow> \<not> prefix q (butlast p)"
        by (metis prefix_order.trans prefixeq_butlast)
      ultimately show ?thesis by blast
    next
      case False
      then show ?thesis using par by simp
    qed
    show ?thesis
    proof (cases r1)
      case (Some err)
      then have "r = Some err" "h' = h1" using "1.prems" par
        by (auto simp: os_MkdirAll_missing [OF Inl])
      then show ?thesis using p1 by simp
    next
      case None
      obtain r2 h2 where mk: "os_Mkdir p perm h1 = (r2, h2)" by (cases "os_Mkdir p perm h1") auto
      have e12: "ext h1 h2" using mk by (rule os_Mkdir_ext)
      have f12: "\<forall>q. \<not> prefix q p \<longrightarrow> h2 q = h1 q" using os_Mkdir_frame [OF mk] by auto
      have h': "h' = h2" using "1.prems" par None mk
        by (auto simp: os_MkdirAll_missing [OF Inl] split: option.splits sum.splits if_splits)
      have "r = None \<longrightarrow> (\<exists>m. lookup h' p = Inr (Dir m))"
      proof (cases r2)
        case None
        then show ?thesis using os_Mkdir_result mk h' by blast
      next
        case (Some err)
        then show ?thesis using "1.prems" par \<open>r1 = None\<close> mk h'
          by (cases "lookup h2 p") (auto simp: os_MkdirAll_missing [OF Inl] node_IsDir_iff split: option.splits sum.splits if_splits node.splits)
      qed
      then show ?thesis using p1 e12 f12 h' ext_trans by auto
    qed
  qed
qed

lemma lookup_Inr_prefix:
  assumes "lookup h q = Inr n" and "prefix p q"
  shows "\<exists>m. lookup h p = Inr m"
proof (cases "p = q")
  case True
  then show ?thesis using assms by simp
next
  case False
  then have "strict_prefix p q" using assms(2) by (simp add: strict_prefix_def)
  then show ?thesis using lookup_prefix_Dir [OF assms(1)] by blast
qed

lemma ext_upd2:
  assumes "ext h h1" and "lookup h p = Inl e"
  shows "ext h (h1(p := v))"
  unfolding ext_def
proof (intro allI impI)
  fix q n
  assume q: "lookup h q = Inr n"
  have "\<not> prefix p q" using lookup_Inr_prefix [OF q] assms(2) by fastforce
  moreover have "lookup h1 q = Inr n" using assms(1) q by (simp add: ext_def)
  ultimately show "lookup (h1(p := v)) q = Inr n" by (simp add: lookup_upd_other)
qed

lemma Exists_lookup: "Exists f h p = (\<exists>n. lookup h p = Inr n)"
  by (induction f) (auto simp: os_Stat_def split: sum.splits)

lemma Stat_os_Stat: "Stat f h p = os_Stat h p"
  by (induction f) auto

lemma os_WriteFile_cases:
  assumes "os_WriteFile p data perm h = (None, h')"
  shows "p \<noteq> [] \<and> (\<exists>d. lookup h (butlast p) = Inr (Dir d)) \<and>
         (\<exists>m. h' = h(p \<mapsto> File data m) \<and> (h p = None \<longrightarrow> m = perm))"
proof -
  have p: "p \<noteq> []" using assms by (auto simp: os_WriteFile_def)
  then obtain d where par: "lookup h (butlast p) = Inr (Dir d)"
    using assms by (cases "lookup h (butlast p)") (auto simp: os_WriteFile_def split: node.splits)
  show ?thesis
  proof (cases "h p")
    case None
    then show ?thesis using assms p par by (simp add: os_WriteFile_def split: if_splits)
  next
    case (Some n)
    then show ?thesis using assms p par
      by (cases n) (auto simp add: os_WriteFile_def split: if_splits)
  qed
qed

lemma not_prefix_butlast: "p \<noteq> [] \<Longrightarrow> \<not> prefix p (butlast p)"
proof
  assume "p \<noteq> []" and "prefix p (butlast p)"
  then have "length p \<le> length (butlast p)" using prefix_length_le by blast
  then show False using \<open>p \<noteq> []\<close> by (cases p rule: rev_cases) auto
qed

lemma os_WriteFile_None:
  assumes "os_WriteFile p data perm h = (None, h')"
  shows "\<exists>m. h' = h(p \<mapsto> File data m) \<and> lookup h' p = Inr (File data m) \<and> (h p = None \<longrightarrow> m = perm)"
proof -
  from os_WriteFile_cases [OF assms] have p: "p \<noteq> []"
    and "\<exists>d. lookup h (butlast p) = Inr (Dir d)"
    and "\<exists>m. h' = h(p \<mapsto> File data m) \<and> (h p = None \<longrightarrow> m = perm)" by simp_all
  then obtain d m where par: "lookup h (butlast p) = Inr (Dir d)"
    and h': "h' = h(p \<mapsto> File data m)" and m: "h p = None \<longrightarrow> m = perm" by auto
  have "lookup h' (butlast p) = lookup h (butlast p)"
    unfolding h' by (rule lookup_upd_other) (rule not_prefix_butlast [OF p])
  then have "lookup h' (butlast p) = Inr (Dir d)" using par by simp
  moreover have "h' p = Some (File data m)" by (simp add: h')
  ultimately have "lookup h' p = Inr (File data m)" by (simp add: lookup_butlast [OF p])
  then show ?thesis using h' m by auto
qed

lemma os_WriteFile_Some: "os_WriteFile p data perm h = (Some e, h') \<Longrightarrow> h' = h"
  unfolding os_WriteFile_def
  by (cases "p = []"; cases "lookup h (butlast p)"; cases "h p")
     (auto split: node.splits if_splits)

lemma os_WriteFile_frame: "os_WriteFile p data perm h = (r, h') \<Longrightarrow> q \<noteq> p \<Longrightarrow> h' q = h q"
  unfolding os_WriteFile_def
  by (cases "p = []"; cases "lookup h (butlast p)"; cases "h p")
     (auto split: node.splits if_splits)

lemma CreateDir_exists:
  "lookup h p = Inr n \<Longrightarrow>
   CreateDir f p perm h =
     (if \<not> node_IsDir n
      then (Some (Errorf ''path exists but is not a directory: %s'' [S (show_path p)] None), h)
      else (None, h))"
  by (cases f) (auto simp: Exists_lookup Stat_os_Stat os_Stat_def)

lemma CreateDir_OS_missing:
  "lookup h p = Inl errno \<Longrightarrow> CreateDir OSFileSystem p perm h = os_MkdirAll p perm h"
  by (simp add: os_Stat_def)

lemma CreateDir_Dry_missing:
  "lookup h p = Inl errno \<Longrightarrow> CreateDir (DryRunFileSystem w) p perm h = (None, h)"
  by (simp add: Exists_lookup)

lemma CreateFile_exists:
  "lookup h p = Inr n \<Longrightarrow>
   CreateFile f p content perm h =
     (if node_IsDir n
      then (Some (Errorf ''path exists but is a directory: %s'' [S (show_path p)] None), h)
      else (None, h))"
  by (cases f) (auto simp: Exists_lookup Stat_os_Stat os_Stat_def)

lemma CreateFile_OS_missing:
  "lookup h p = Inl errno \<Longrightarrow>
   CreateFile OSFileSystem p content perm h =
     (case CreateDir OSFileSystem (filepath_Dir p) 493 h of
        (Some err, h1) \<Rightarrow> (Some (Errorf ''failed to create parent directory: %w'' [] (Some err)), h1)
      | (None, h1) \<Rightarrow> os_WriteFile p content perm h1)"
  by (simp add: os_Stat_def)

lemma CreateFile_Dry_missing:
  "lookup h p = Inl errno \<Longrightarrow> CreateFile (DryRunFileSystem w) p content perm h = (None, h)"
  by (simp add: Exists_lookup)

lemma CreateDir_Dry_same: "CreateDir (DryRunFileSystem w) p perm h = (r, h') \<Longrightarrow> h' = h"
  by (auto simp: Exists_lookup Stat_os_Stat split: if_splits sum.splits)

lemma CreateFile_Dry_same: "CreateFile (DryRunFileSystem w) p content perm h = (r, h') \<Longrightarrow> h' = h"
  by (auto simp: Exists_lookup Stat_os_Stat split: if_splits sum.splits)

lemma CreateDir_props:
  assumes "CreateDir f p perm h = (r, h')"
  shows "ext h h' \<and> (\<forall>q. \<not> prefix q p \<longrightarrow> h' q = h q)"
proof (cases f)
  case OSFileSystem
  show ?thesis
  proof (cases "lookup h p")
    case (Inl errno)
    then show ?thesis using assms OSFileSystem os_MkdirAll_props [of p perm h r h']
      by (simp add: CreateDir_OS_missing del: CreateDir.simps)
  next
    case (Inr n)
    then show ?thesis using assms by (auto simp: CreateDir_exists simp del: CreateDir.simps split: if_splits)
  qed
next
  case (DryRunFileSystem w)
  then show ?thesis using assms CreateDir_Dry_same by fastforce
qed

lemma CreateDir_OS_None:
  assumes "CreateDir OSFileSystem p perm h = (None, h')"
  shows "\<exists>m. lookup h' p = Inr (Dir m)"
proof (cases "lookup h p")
  case (Inl errno)
  then show ?thesis using assms os_MkdirAll_props [of p perm h None h']
    by (simp add: CreateDir_OS_missing del: CreateDir.simps)
next
  case (Inr n)
  then show ?thesis using assms
    by (auto simp: CreateDir_exists node_IsDir_iff simp del: CreateDir.simps split: if_splits)
qed

lemma prefix_butlast_trans: "\<not> prefix q p \<Longrightarrow> \<not> prefix q (butlast p)"
  by (metis prefix_order.trans prefixeq_butlast)

lemma CreateFile_props:
  assumes "CreateFile f p content perm h = (r, h')"
  shows "ext h h' \<and> (\<forall>q. \<not> prefix q p \<longrightarrow> h' q = h q)"
proof (cases f)
  case OSFileSystem
  show ?thesis
  proof (cases "lookup h p")
    case (Inr n)
    then show ?thesis using assms by (auto simp: CreateFile_exists simp del: CreateFile.simps split: if_splits)
  next
    case (Inl errno)
    obtain r1 h1 where cd: "CreateDir OSFileSystem (filepath_Dir p) 493 h = (r1, h1)"
      by (cases "CreateDir OSFileSystem (filepath_Dir p) 493 h") auto
    from CreateDir_props [OF cd] have e1: "ext h h1" and f1: "\<forall>q. \<not> prefix q p \<longrightarrow> h1 q = h q"
      using prefix_butlast_trans by (auto simp: filepath_Dir_def)
    show ?thesis
    proof (cases r1)
      case (Some err)
      then have "h' = h1" using assms OSFileSystem cd by (simp add: CreateFile_OS_missing [OF Inl] del: CreateFile.simps CreateDir.simps)
      then show ?thesis using e1 f1 by simp
    next
      case None
      then have wf: "os_WriteFile p content perm h1 = (r, h')"
        using assms OSFileSystem cd by (simp add: CreateFile_OS_missing [OF Inl] del: CreateFile.simps CreateDir.simps)
      have f2: "\<forall>q. \<not> prefix q p \<longrightarrow> h' q = h1 q" using os_WriteFile_frame [OF wf] by auto
      have "ext h h'"
      proof (cases r)
        case None
        with wf os_WriteFile_None obtain m where "h' = h1(p := Some (File content m))" by blast
        then show ?thesis using ext_upd2 [OF e1 Inl] by simp
      next
        case (Some err)
        then show ?thesis using wf os_WriteFile_Some e1 by blast
      qed
      then show ?thesis using f1 f2 by simp
    qed
  qed
next
  case (DryRunFileSystem w)
  then show ?thesis using assms CreateFile_Dry_same by fastforce
qed

lemma CreateFile_OS_None:
  assumes "CreateFile OSFileSystem p content perm h = (None, h')"
  shows "\<exists>c m. lookup h' p = Inr (File c m)"
proof (cases "lookup h p")
  case (Inr n)
  then show ?thesis using assms
    by (cases n) (auto simp: CreateFile_exists simp del: CreateFile.simps split: if_splits)
next
  case (Inl errno)
  obtain r1 h1 where cd: "CreateDir OSFileSystem (filepath_Dir p) 493 h = (r1, h1)"
    by (cases "CreateDir OSFileSystem (filepath_Dir p) 493 h") auto
  have "r1 = None \<and> os_WriteFile p content perm h1 = (None, h')"
    using assms cd by (cases r1) (simp_all add: CreateFile_OS_missing [OF Inl] del: CreateFile.simps CreateDir.simps)
  then show ?thesis using os_WriteFile_None by blast
qed

section \<open>The walk as a list of entries\<close>

lemma run_list_append:
  "run_list fn (xs @ ys) st =
     (case run_list fn xs st of
        (Some err, st') \<Rightarrow> (Some err, st')
      | (None, st') \<Rightarrow> run_list fn ys st')"
  by (induction xs arbitrary: st) (auto split: prod.splits option.splits)

lemma walkDir_flat:
  "walkDir fn name a st = run_list fn (flat name a) st"
  "walkDirs fn name cs st = run_list fn (flats name cs) st"
proof (induction fn name a st and fn name cs st rule: walkDir_walkDirs.induct)
  case (1 fn name n c st)
  show ?case by (auto split: prod.splits option.splits)
next
  case (2 fn name n cs st)
  then show ?case by (auto split: prod.splits option.splits)
next
  case (3 fn name st)
  show ?case by simp
next
  case (4 fn name d1 ds st)
  then show ?case by (auto simp: run_list_append split: prod.splits option.splits)
qed

lemma run_list_Walk_fn:
  "run_list (Walk_fn tm fn) xs st =
   run_list fn (map (\<lambda>(path, a). (TrimPrefix path (tm_prefix tm @ ''/''), a))
                  (filter (\<lambda>(path, a). path \<noteq> tm_prefix tm) xs)) st"
  by (induction xs arbitrary: st) (auto simp: Walk_fn_def Let_def split: prod.splits option.splits)

lemma Walk_entries:
  "embed_Stat (tm_fs tm) (tm_prefix tm) = Inr d \<Longrightarrow> Walk tm fn st = run_list fn (entries tm) st"
  by (simp add: Walk_def WalkDir_def entries_def walkDir_flat run_list_Walk_fn)

lemma HasTemplates_root:
  "HasTemplates tm \<Longrightarrow> \<exists>n cs. embed_Stat (tm_fs tm) (tm_prefix tm) = Inr (ADir n cs) \<and> cs \<noteq> []"
  by (auto simp: HasTemplates_def embed_ReadDir_def embed_Stat_def split: option.splits asset.splits sum.splits)

section \<open>Lemmas on the template manager\<close>

lemma embed_lookup_claude: "embed_lookup fsys ''.claude'' = find_entry fsys ''.claude''"
  by (simp add: embed_lookup_def ValidPath_def valid_elem_def split: option.splits)

section \<open>One entry\<close>

lemma Run_fn_entry:
  "Run_fn e path (Some d) None (st, h) =
     (if IsDir d then processDirectory e (targetPath_of e path) (st, h)
      else processFile e path (targetPath_of e path) (st, h))"
  by (simp add: Run_fn_def Let_def)

lemma processDirectory_exists:
  "lookup h tp = Inr n \<Longrightarrow>
   processDirectory e tp (st, h) =
     (if \<not> node_IsDir n
      then (Some (Errorf ''path exists but is not a directory: %s'' [S (show_path tp)] None),
            st\<lparr>Errors := Errors st @ [Errorf ''path exists but is not a directory: %s'' [S (show_path tp)] None]\<rparr>, h)
      else (None, st\<lparr>DirsSkipped := DirsSkipped st + 1\<rparr>, h))"
  by (simp add: processDirectory_def Exists_lookup Stat_os_Stat os_Stat_def Let_def)

lemma processDirectory_missing:
  "lookup h tp = Inl errno \<Longrightarrow>
   processDirectory e tp (st, h) =
     (case CreateDir (fs e) tp (GetDefaultDirMode (tmpl e)) h of
        (Some err, h') \<Rightarrow> (Some err, st\<lparr>Errors := Errors st @ [err]\<rparr>, h')
      | (None, h') \<Rightarrow> (None, st\<lparr>DirsCreated := DirsCreated st + 1\<rparr>, h'))"
  by (simp add: processDirectory_def Exists_lookup)

lemma processFile_exists:
  "lookup h tp = Inr n \<Longrightarrow>
   processFile e src tp (st, h) =
     (if node_IsDir n
      then (Some (Errorf ''path exists but is a directory: %s'' [S (show_path tp)] None),
            st\<lparr>Errors := Errors st @ [Errorf ''path exists but is a directory: %s'' [S (show_path tp)] None]\<rparr>, h)
      else (None, st\<lparr>FilesSkipped := FilesSkipped st + 1\<rparr>, h))"
  by (simp add: processFile_def Exists_lookup Stat_os_Stat os_Stat_def Let_def)

lemma processFile_missing:
  "lookup h tp = Inl errno \<Longrightarrow>
   processFile e src tp (st, h) =
     (case ReadFile (tmpl e) src of
        Inl err \<Rightarrow> (Some err, st\<lparr>Errors := Errors st @ [err]\<rparr>, h)
      | Inr content \<Rightarrow>
          (case CreateFile (fs e) tp content (GetDefaultFileMode (tmpl e) src) h of
             (Some err, h') \<Rightarrow> (Some err, st\<lparr>Errors := Errors st @ [err]\<rparr>, h')
           | (None, h') \<Rightarrow> (None, st\<lparr>FilesCreated := FilesCreated st + 1\<rparr>, h')))"
  by (simp add: processFile_def Exists_lookup Let_def split: sum.split)

text \<open>What a step does to the host: it only adds, and only at or above the target.\<close>

lemma processDirectory_host:
  assumes "processDirectory e tp (st, h) = (r, st', h')"
  shows "ext h h' \<and> (\<forall>q. \<not> prefix q tp \<longrightarrow> h' q = h q)"
proof (cases "lookup h tp")
  case (Inr n)
  then show ?thesis using assms by (auto simp: processDirectory_exists split: if_splits)
next
  case (Inl errno)
  obtain r1 h1 where cd: "CreateDir (fs e) tp (GetDefaultDirMode (tmpl e)) h = (r1, h1)"
    by (cases "CreateDir (fs e) tp (GetDefaultDirMode (tmpl e)) h") auto
  then have "h' = h1" using assms by (cases r1) (simp_all add: processDirectory_missing [OF Inl])
  then show ?thesis using CreateDir_props [OF cd] by simp
qed

lemma processFile_host:
  assumes "processFile e src tp (st, h) = (r, st', h')"
  shows "ext h h' \<and> (\<forall>q. \<not> prefix q tp \<longrightarrow> h' q = h q)"
proof (cases "lookup h tp")
  case (Inr n)
  then show ?thesis using assms by (auto simp: processFile_exists split: if_splits)
next
  case (Inl errno)
  show ?thesis
  proof (cases "ReadFile (tmpl e) src")
    case (Inl err)
    then show ?thesis using assms \<open>lookup h tp = Inl errno\<close> by (simp add: processFile_missing)
  next
    case (Inr content)
    obtain r1 h1 where cf: "CreateFile (fs e) tp content (GetDefaultFileMode (tmpl e) src) h = (r1, h1)"
      by (cases "CreateFile (fs e) tp content (GetDefaultFileMode (tmpl e) src) h") auto
    then have "h' = h1" using assms Inr \<open>lookup h tp = Inl errno\<close>
      by (cases r1) (simp_all add: processFile_missing)
    then show ?thesis using CreateFile_props [OF cf] by simp
  qed
qed

lemma Run_fn_host:
  assumes "Run_fn e path (Some d) None (st, h) = (r, st', h')"
  shows "ext h h' \<and> (\<forall>q. \<not> prefix q (targetPath_of e path) \<longrightarrow> h' q = h q)"
  using assms processDirectory_host processFile_host
  by (cases "IsDir d") (simp_all add: Run_fn_entry)

lemma run_list_host:
  "run_list (Run_fn e) es (st, h) = (r, st', h') \<Longrightarrow> ext h h'"
proof (induction es arbitrary: st h)
  case Nil
  then show ?case by simp
next
  case (Cons x xs)
  obtain path d where x: "x = (path, d)" by (cases x)
  obtain r1 st1 h1 where s: "Run_fn e path (Some d) None (st, h) = (r1, st1, h1)"
    by (cases "Run_fn e path (Some d) None (st, h)") auto
  have e1: "ext h h1" using Run_fn_host [OF s] by simp
  show ?case
  proof (cases r1)
    case (Some err)
    then show ?thesis using Cons.prems x s e1 by simp
  next
    case None
    then have "run_list (Run_fn e) xs (st1, h1) = (r, st', h')" using Cons.prems x s by simp
    then have "ext h1 h'" by (rule Cons.IH)
    then show ?thesis using e1 ext_trans by blast
  qed
qed

lemma Run_host:
  assumes "Run e h = (r, e', h')"
  shows "ext h h'"
proof (cases "HasTemplates (tmpl e)")
  case False
  then show ?thesis using assms by (simp add: Run_def)
next
  case True
  from HasTemplates_root [OF True] obtain n cs where
    "embed_Stat (tm_fs (tmpl e)) (tm_prefix (tmpl e)) = Inr (ADir n cs)" by blast
  then have w: "Walk (tmpl e) (Run_fn e) (stats e, h) = run_list (Run_fn e) (entries (tmpl e)) (stats e, h)"
    by (rule Walk_entries)
  obtain r1 st1 h1 where rl: "run_list (Run_fn e) (entries (tmpl e)) (stats e, h) = (r1, st1, h1)"
    by (cases "run_list (Run_fn e) (entries (tmpl e)) (stats e, h)") auto
  then have "h' = h1" using assms True w by (cases r1) (auto simp: Run_def split: if_splits)
  then show ?thesis using run_list_host [OF rl] by simp
qed

section \<open>Joining and cleaning paths of valid elements\<close>

lemma valid_elem_nice: "valid_elem e \<Longrightarrow> nice e"
  by (simp add: valid_elem_def nice_def)

lemma split_slash_not_Nil [simp]: "split_slash s \<noteq> []"
  by (induction s) (auto split: list.splits)

lemma split_slash_append:
  "split_slash (a @ CHR ''/'' # b) = split_slash a @ split_slash b"
proof (induction a)
  case Nil
  show ?case by simp
next
  case (Cons c cs)
  obtain x xs where "split_slash cs = x # xs" by (cases "split_slash cs") auto
  then show ?case using Cons by simp
qed

lemma split_slash_noslash: "CHR ''/'' \<notin> set e \<Longrightarrow> split_slash e = [e]"
  by (induction e) auto

lemma split_slash_elems: "e \<in> set (split_slash s) \<Longrightarrow> CHR ''/'' \<notin> set e"
proof (induction s arbitrary: e)
  case Nil
  then show ?case by simp
next
  case (Cons c cs)
  obtain x xs where sp: "split_slash cs = x # xs" by (cases "split_slash cs") auto
  show ?case
  proof (cases "c = CHR ''/''")
    case True
    then show ?thesis using Cons by auto
  next
    case False
    then have "e = c # x \<or> e \<in> set xs" using Cons.prems sp by simp
    then show ?thesis using Cons.IH sp False by auto
  qed
qed

lemma join_slash_Cons:
  "join_slash (x # xs) = x @ (if xs = [] then [] else CHR ''/'' # join_slash xs)"
  by (cases xs) auto

lemma join_slash_snoc:
  "xs \<noteq> [] \<Longrightarrow> join_slash (xs @ [x]) = join_slash xs @ CHR ''/'' # x"
  by (induction xs rule: join_slash.induct) auto

lemma split_join:
  "xs \<noteq> [] \<Longrightarrow> \<forall>e\<in>set xs. CHR ''/'' \<notin> set e \<Longrightarrow> split_slash (join_slash xs) = xs"
proof (induction xs rule: join_slash.induct)
  case 1
  then show ?case by simp
next
  case (2 x)
  then show ?case by (simp add: split_slash_noslash)
next
  case (3 x y ys)
  have "split_slash (x @ CHR ''/'' # join_slash (y # ys)) = split_slash x @ split_slash (join_slash (y # ys))"
    by (rule split_slash_append)
  then show ?case using 3 by (simp add: split_slash_noslash)
qed

lemma clean_elems_append:
  "clean_elems r acc (xs @ ys) = clean_elems r (clean_elems r acc xs) ys"
  by (induction xs arbitrary: acc) auto

lemma clean_elems_valid:
  "\<forall>e\<in>set xs. valid_elem e \<Longrightarrow> clean_elems r acc xs = acc @ xs"
  by (induction xs arbitrary: acc) (auto simp: valid_elem_def)

lemma clean_elems_nice:
  "\<forall>e\<in>set acc. nice e \<Longrightarrow> \<forall>e\<in>set xs. CHR ''/'' \<notin> set e \<Longrightarrow>
   \<forall>e\<in>set (clean_elems r acc xs). nice e"
proof (induction xs arbitrary: acc)
  case Nil
  then show ?case by simp
next
  case (Cons x xs)
  have xs: "\<forall>e\<in>set xs. CHR ''/'' \<notin> set e" using Cons.prems(2) by simp
  have b: "\<forall>e\<in>set (butlast acc). nice e" using Cons.prems(1) by (meson in_set_butlastD)
  have a: "x \<noteq> [] \<Longrightarrow> x \<noteq> ''.'' \<Longrightarrow> \<forall>e\<in>set (acc @ [x]). nice e"
    using Cons.prems by (auto simp: nice_def)
  consider "x = [] \<or> x = ''.''"
    | "x \<noteq> []" "x \<noteq> ''.''" "x = ''..''" "acc \<noteq> [] \<and> last acc \<noteq> ''..''"
    | "x \<noteq> []" "x \<noteq> ''.''" "x = ''..''" "\<not> (acc \<noteq> [] \<and> last acc \<noteq> ''..'')" "r"
    | "x \<noteq> []" "x \<noteq> ''.''" "x = ''..''" "\<not> (acc \<noteq> [] \<and> last acc \<noteq> ''..'')" "\<not> r"
    | "x \<noteq> []" "x \<noteq> ''.''" "x \<noteq> ''..''"
    by blast
  then show ?case
  proof cases
    case 1
    then have eq: "clean_elems r acc (x # xs) = clean_elems r acc xs" by auto
    show ?thesis unfolding eq by (rule Cons.IH [OF Cons.prems(1) xs])
  next
    case 2
    then have eq: "clean_elems r acc (x # xs) = clean_elems r (butlast acc) xs" by simp
    show ?thesis unfolding eq by (rule Cons.IH [OF b xs])
  next
    case 3
    then have eq: "clean_elems r acc (x # xs) = clean_elems r acc xs" by auto
    show ?thesis unfolding eq by (rule Cons.IH [OF Cons.prems(1) xs])
  next
    case 4
    then have eq: "clean_elems r acc (x # xs) = clean_elems r (acc @ [x]) xs" by auto
    show ?thesis unfolding eq by (rule Cons.IH [OF a [OF 4(1,2)] xs])
  next
    case 5
    then have eq: "clean_elems r acc (x # xs) = clean_elems r (acc @ [x]) xs" by simp
    show ?thesis unfolding eq by (rule Cons.IH [OF a [OF 5(1,2)] xs])
  qed
qed

lemma target_root_nice: "\<forall>e\<in>set (target_root T). nice e"
  unfolding target_root_def
  by (rule clean_elems_nice) (auto dest: split_slash_elems)

lemma filter_nice: "\<forall>e\<in>set xs. nice e \<Longrightarrow> filter (\<lambda>e. e \<noteq> [] \<and> e \<noteq> ''.'') xs = xs"
  by (induction xs) (auto simp: nice_def)

lemma host_path_rel:
  assumes "xs \<noteq> []" and "\<forall>e\<in>set xs. nice e"
  shows "host_path (join_slash xs) = xs"
proof -
  have "split_slash (join_slash xs) = xs" using assms by (simp add: split_join nice_def)
  then show ?thesis using assms(2) by (simp add: host_path_def filter_nice)
qed

lemma host_path_abs:
  assumes "\<forall>e\<in>set xs. nice e"
  shows "host_path (CHR ''/'' # join_slash xs) = xs"
proof (cases "xs = []")
  case True
  then show ?thesis by (simp add: host_path_def)
next
  case False
  have "split_slash (CHR ''/'' # join_slash xs) = [] # split_slash (join_slash xs)" by simp
  also have "\<dots> = [] # xs" using assms False by (simp add: split_join nice_def)
  finally show ?thesis using assms by (simp add: host_path_def filter_nice)
qed

lemma host_path_Clean: "host_path (Clean T) = target_root T"
proof (cases "T = []")
  case True
  then show ?thesis by (simp add: Clean_def host_path_def target_root_def)
next
  case False
  show ?thesis
  proof (cases "IsAbs T")
    case True
    then show ?thesis using False host_path_abs [OF target_root_nice, of T]
      by (simp add: Clean_def Let_def target_root_def)
  next
    case nabs: False
    show ?thesis
    proof (cases "target_root T = []")
      case True
      then show ?thesis using False nabs by (simp add: Clean_def Let_def target_root_def host_path_def)
    next
      case ne: False
      then show ?thesis using False nabs host_path_rel [OF ne target_root_nice]
        by (simp add: Clean_def Let_def target_root_def)
    qed
  qed
qed

lemma wf_asset_name: "wf_asset a \<Longrightarrow> valid_elem (asset_name a)"
  by (cases a) auto


lemma not_IsAbs_join: "valid_elem r \<Longrightarrow> \<not> IsAbs (join_slash (r # p) @ s)"
  by (cases r) (auto simp: IsAbs_def HasPrefix_def valid_elem_def join_slash_Cons)



lemma rel_flat_prefix:
  "(q, b) \<in> set (rel_flat p a) \<Longrightarrow> prefix p q"
  "(q, b) \<in> set (rel_flats p cs) \<Longrightarrow> \<exists>d\<in>set cs. prefix (p @ [asset_name d]) q"
proof (induction p a and p cs rule: rel_flat_rel_flats.induct)
  case (1 p n c)
  then show ?case by simp
next
  case (2 p n cs)
  then show ?case by (auto dest: append_prefixD)
next
  case (3 p)
  then show ?case by simp
next
  case (4 p d1 ds)
  then show ?case by auto
qed

lemma rel_flat_valid:
  "wf_asset a \<Longrightarrow> \<forall>e\<in>set p. valid_elem e \<Longrightarrow> (q, b) \<in> set (rel_flat p a) \<Longrightarrow> \<forall>e\<in>set q. valid_elem e"
  "wf_assets cs \<Longrightarrow> \<forall>e\<in>set p. valid_elem e \<Longrightarrow> (q, b) \<in> set (rel_flats p cs) \<Longrightarrow> \<forall>e\<in>set q. valid_elem e"
proof (induction p a and p cs rule: rel_flat_rel_flats.induct)
  case (1 p n c)
  then show ?case by simp
next
  case (2 p n cs)
  then show ?case by auto
next
  case (3 p)
  then show ?case by simp
next
  case (4 p d1 ds)
  have nm: "valid_elem (asset_name d1)" using "4.prems"(1) by (simp add: wf_asset_name)
  have v: "\<forall>e\<in>set (p @ [asset_name d1]). valid_elem e" using "4.prems"(2) nm by simp
  from "4.prems"(3) consider "(q, b) \<in> set (rel_flat (p @ [asset_name d1]) d1)" | "(q, b) \<in> set (rel_flats p ds)"
    by auto
  then show ?case
  proof cases
    case 1
    then show ?thesis using "4.IH"(1) [OF _ v] "4.prems"(1) by simp
  next
    case 2
    then show ?thesis using "4.IH"(2) [OF _ "4.prems"(2)] "4.prems"(1) by simp
  qed
qed

lemma fresh_append:
  "fresh (xs @ ys) = (fresh xs \<and> fresh ys \<and> (\<forall>x\<in>set xs. \<forall>y\<in>set ys. \<not> prefix y x))"
  by (induction xs) auto

lemma fresh_rel_flat:
  "wf_asset a \<Longrightarrow> fresh (map fst (rel_flat p a))"
  "wf_assets cs \<Longrightarrow> fresh (map fst (rel_flats p cs))"
proof (induction p a and p cs rule: rel_flat_rel_flats.induct)
  case (1 p n c)
  show ?case by simp
next
  case (2 p n cs)
  have "\<And>q b. (q, b) \<in> set (rel_flats p cs) \<Longrightarrow> \<not> prefix q p"
  proof
    fix q b
    assume "(q, b) \<in> set (rel_flats p cs)" and "prefix q p"
    then obtain d where "prefix (p @ [asset_name d]) q" using rel_flat_prefix(2) by blast
    then have "length p < length q" using prefix_length_le by fastforce
    then show False using \<open>prefix q p\<close> prefix_length_le by fastforce
  qed
  then show ?case using 2 by auto
next
  case (3 p)
  show ?case by simp
next
  case (4 p d1 ds)
  have "\<And>x bx y by. (x, bx) \<in> set (rel_flat (p @ [asset_name d1]) d1) \<Longrightarrow>
          (y, by) \<in> set (rel_flats p ds) \<Longrightarrow> \<not> prefix y x"
  proof
    fix x bx y "by"
    assume x: "(x, bx) \<in> set (rel_flat (p @ [asset_name d1]) d1)"
      and y: "(y, by) \<in> set (rel_flats p ds)" and yx: "prefix y x"
    from x have px: "prefix (p @ [asset_name d1]) x" by (rule rel_flat_prefix(1))
    from y obtain d where d: "d \<in> set ds" and py: "prefix (p @ [asset_name d]) y"
      using rel_flat_prefix(2) by blast
    from py yx have "prefix (p @ [asset_name d]) x" by (rule prefix_order.trans)
    with px have "p @ [asset_name d] = p @ [asset_name d1]"
      by (metis length_append_singleton prefix_length_prefix prefix_order.antisym order_refl)
    then have "asset_name d1 = asset_name d" by simp
    then show False using d "4.prems" by auto
  qed
  then show ?case using 4 by (auto simp: fresh_append)
qed

lemma fresh_map_append: "fresh (map ((@) R) ps) = fresh ps"
  by (induction ps) auto





lemma valid_claude: "valid_elem ''.claude''"
  by (simp add: valid_elem_def)





lemma Join3:
  assumes "q \<noteq> []" and "\<forall>e\<in>set q. valid_elem e"
  shows "host_path (Join [T, ''.claude'', join_slash q]) = target_root T @ ''.claude'' # q"
proof -
  have vq: "\<forall>e\<in>set (''.claude'' # q). valid_elem e" using assms(2) valid_claude by simp
  have sq: "split_slash (join_slash (''.claude'' # q)) = ''.claude'' # q"
    using vq by (intro split_join) (auto simp: valid_elem_def)
  have jq: "join_slash [''.claude'', join_slash q] = join_slash (''.claude'' # q)"
    using assms(1) by (cases q) auto
  show ?thesis
  proof (cases "T = []")
    case True
    have "Join [T, ''.claude'', join_slash q] = Clean (join_slash (''.claude'' # q))"
      using True jq by (simp add: Join_def)
    moreover have "\<not> IsAbs (join_slash (''.claude'' # q))"
      using not_IsAbs_join [OF valid_claude, of q "[]"] by simp
    moreover have "clean_elems False [] (''.claude'' # q) = ''.claude'' # q"
      using clean_elems_valid [OF vq, of False "[]"] by simp
    moreover have "join_slash (''.claude'' # q) \<noteq> []" by (simp add: join_slash_Cons)
    ultimately have "Join [T, ''.claude'', join_slash q] = join_slash (''.claude'' # q)"
      using sq by (simp add: Clean_def Let_def)
    moreover have "host_path (join_slash (''.claude'' # q)) = ''.claude'' # q"
      using vq by (intro host_path_rel) (auto simp: valid_elem_nice)
    moreover have "target_root T = []" using True by (simp add: target_root_def)
    ultimately show ?thesis by simp
  next
    case False
    let ?s = "T @ CHR ''/'' # join_slash (''.claude'' # q)"
    have "join_slash [T, ''.claude'', join_slash q] = ?s" using jq by simp
    then have j: "Join [T, ''.claude'', join_slash q] = Clean ?s" using False by (simp add: Join_def)
    have abs: "IsAbs ?s = IsAbs T" using False by (cases T) (simp_all add: IsAbs_def HasPrefix_def)
    have "split_slash ?s = split_slash T @ split_slash (join_slash (''.claude'' # q))"
      by (rule split_slash_append)
    then have sp: "split_slash ?s = split_slash T @ ''.claude'' # q" using sq by simp
    have "clean_elems (IsAbs T) [] (split_slash T @ ''.claude'' # q)
            = clean_elems (IsAbs T) (target_root T) (''.claude'' # q)"
      by (simp add: clean_elems_append target_root_def)
    also have "\<dots> = target_root T @ ''.claude'' # q" using vq by (rule clean_elems_valid)
    finally have out: "clean_elems (IsAbs ?s) [] (split_slash ?s) = target_root T @ ''.claude'' # q"
      using abs sp by simp
    have nice: "\<forall>e\<in>set (target_root T @ ''.claude'' # q). nice e"
      using target_root_nice [of T] vq by (auto simp: valid_elem_nice)
    have "host_path (Clean ?s) = target_root T @ ''.claude'' # q"
    proof (cases "IsAbs T")
      case True
      then have "Clean ?s = CHR ''/'' # join_slash (target_root T @ ''.claude'' # q)"
        using out abs by (simp add: Clean_def Let_def)
      then show ?thesis using host_path_abs [OF nice] by simp
    next
      case nabs: False
      then have "Clean ?s = join_slash (target_root T @ ''.claude'' # q)"
        using out abs by (simp add: Clean_def Let_def)
      then show ?thesis using host_path_rel [OF _ nice] by simp
    qed
    then show ?thesis using j by simp
  qed
qed

section \<open>Reading a template by path\<close>

lemma Join_claude:
  "Join [''.claude'', relPath] =
     (let q = clean_elems False [''.claude''] (split_slash relPath)
      in if q = [] then ''.'' else join_slash q)"
proof -
  let ?s = "''.claude'' @ CHR ''/'' # relPath"
  have j: "Join [''.claude'', relPath] = Clean ?s" by (simp add: Join_def)
  have na: "\<not> IsAbs ?s" by (simp add: IsAbs_def HasPrefix_def)
  have "split_slash ?s = split_slash ''.claude'' @ split_slash relPath" by (rule split_slash_append)
  also have "\<dots> = ''.claude'' # split_slash relPath" by (simp add: split_slash_noslash)
  finally have "clean_elems False [] (split_slash ?s) = clean_elems False [''.claude''] (split_slash relPath)"
    by simp
  then have "Clean ?s =
     (let q = clean_elems False [''.claude''] (split_slash relPath)
      in if q = [] then ''.'' else join_slash q)"
    using na by (simp add: Clean_def Let_def)
  then show ?thesis using j by simp
qed

lemma nice_join_not_dot:
  assumes "q \<noteq> []" and "\<forall>e\<in>set q. nice e"
  shows "join_slash q \<noteq> ''.''"
proof
  assume "join_slash q = ''.''"
  then have "split_slash (join_slash q) = [''.'']" by simp
  moreover have "split_slash (join_slash q) = q" using assms by (simp add: split_join nice_def)
  ultimately show False using assms(2) by (auto simp: nice_def)
qed

lemma embed_lookup_join:
  assumes "q \<noteq> []" and "\<forall>e\<in>set q. nice e"
  shows "embed_lookup fsys (join_slash q) =
           (if ''..'' \<in> set q then None else descend (ADir ''.'' fsys) q)"
proof -
  have sp: "split_slash (join_slash q) = q" using assms by (simp add: split_join nice_def)
  have nd: "join_slash q \<noteq> ''.''" using assms by (rule nice_join_not_dot)
  have "list_all valid_elem q \<longleftrightarrow> ''..'' \<notin> set q"
    using assms(2) by (auto simp: list_all_iff valid_elem_def nice_def)
  then show ?thesis using sp nd by (simp add: embed_lookup_def ValidPath_def)
qed

lemma ReadFile_lexical:
  "ReadFile (NewTemplateManager fsys ''.claude'') relPath =
     (let q = clean_elems False [''.claude''] (split_slash relPath);
          name = (if q = [] then ''.'' else join_slash q)
      in if ''..'' \<in> set q
         then Inl (Errorf ''failed to read embedded file %s: %w'' [S name]
                     (Some (PathError ''open'' name ErrNotExist)))
         else case descend (ADir ''.'' fsys) q of
                None \<Rightarrow> Inl (Errorf ''failed to read embedded file %s: %w'' [S name]
                             (Some (PathError ''open'' name ErrNotExist)))
              | Some (ADir n cs) \<Rightarrow>
                  Inl (Errorf ''failed to read embedded file %s: %w'' [S name]
                        (Some (PathError ''read'' name (ErrText ''is a directory''))))
              | Some (AFile n c) \<Rightarrow> Inr c)"
proof -
  let ?q = "clean_elems False [''.claude''] (split_slash relPath)"
  have nq: "\<forall>e\<in>set ?q. nice e"
    by (rule clean_elems_nice) (auto simp: nice_def dest: split_slash_elems)
  show ?thesis
  proof (cases "?q = []")
    case True
    then have "Join [''.claude'', relPath] = ''.''" by (simp add: Join_claude Let_def)
    then show ?thesis using True
      by (simp add: ReadFile_def NewTemplateManager_def Let_def embed_ReadFile_def embed_lookup_def
          ValidPath_def)
  next
    case False
    then have j: "Join [''.claude'', relPath] = join_slash ?q" by (simp add: Join_claude Let_def)
    show ?thesis using False embed_lookup_join [OF False nq, of fsys]
      by (simp add: ReadFile_def NewTemplateManager_def Let_def embed_ReadFile_def j
          split: option.split asset.split)
  qed
qed

lemma ReadFile_leading_slash:
  "ReadFile (NewTemplateManager fsys ''.claude'') (CHR ''/'' # relPath) =
   ReadFile (NewTemplateManager fsys ''.claude'') relPath"
  by (simp add: ReadFile_lexical)

lemma ReadFile_dotdot:
  assumes "valid_elem x"
  shows "ReadFile (NewTemplateManager fsys ''.claude'') (x @ ''/../'' @ relPath) =
         ReadFile (NewTemplateManager fsys ''.claude'') relPath"
proof -
  have "split_slash (x @ CHR ''/'' # (''..'' @ CHR ''/'' # relPath))
          = split_slash x @ split_slash (''..'' @ CHR ''/'' # relPath)"
    by (rule split_slash_append)
  also have "split_slash (''..'' @ CHR ''/'' # relPath) = split_slash ''..'' @ split_slash relPath"
    by (rule split_slash_append)
  finally have "split_slash (x @ ''/../'' @ relPath) = x # ''..'' # split_slash relPath"
    using assms by (simp add: split_slash_noslash valid_elem_def)
  then have "clean_elems False [''.claude''] (split_slash (x @ ''/../'' @ relPath))
               = clean_elems False [''.claude''] (split_slash relPath)"
    using assms by (simp add: valid_elem_def)
  then show ?thesis by (simp only: ReadFile_lexical)
qed

section \<open>Configuration validation on the host\<close>

lemma os_Remove_file:
  assumes "lookup h p = Inr (File c m)" and "lookup h (butlast p) = Inr (Dir d)" and "p \<noteq> []"
  shows "os_Remove p h =
           (if \<not> writable d then (Some (PathError ''remove'' (show_path p) EACCES), h)
            else (None, h(p := None)))"
  using assms by (simp add: os_Remove_def)

lemma os_WriteFile_parent:
  assumes "os_WriteFile p data perm h = (None, h')"
  shows "\<exists>d. lookup h (butlast p) = Inr (Dir d) \<and> lookup h' (butlast p) = Inr (Dir d) \<and>
             (h p = None \<longrightarrow> writable d)"
proof -
  from os_WriteFile_cases [OF assms] obtain d m where p: "p \<noteq> []"
    and par: "lookup h (butlast p) = Inr (Dir d)" and h': "h' = h(p \<mapsto> File data m)" by auto
  have "lookup h' (butlast p) = lookup h (butlast p)"
    unfolding h' by (rule lookup_upd_other) (rule not_prefix_butlast [OF p])
  moreover have "h p = None \<longrightarrow> writable d"
    using assms p par by (cases "h p") (auto simp: os_WriteFile_def split: if_splits)
  ultimately show ?thesis using par by simp
qed

lemma os_WriteFile_existing:
  assumes "os_WriteFile p data perm h = (None, h')" and "h p = Some n"
  shows "\<exists>c m. n = File c m \<and> h' p = Some (File data m)"
proof (cases n)
  case (File c m)
  have "p \<noteq> []" using os_WriteFile_cases [OF assms(1)] by simp
  moreover obtain d where "lookup h (butlast p) = Inr (Dir d)"
    using os_WriteFile_cases [OF assms(1)] by auto
  ultimately have "h' = h(p \<mapsto> File data m)"
    using assms File by (simp add: os_WriteFile_def split: if_splits)
  then show ?thesis using File by simp
next
  case (Dir m)
  have "p \<noteq> []" using os_WriteFile_cases [OF assms(1)] by simp
  moreover obtain d where "lookup h (butlast p) = Inr (Dir d)"
    using os_WriteFile_cases [OF assms(1)] by auto
  ultimately have False using assms Dir by (simp add: os_WriteFile_def)
  then show ?thesis ..
qed

lemma example_probe:
  "host_path (Join [Abs (TargetDir example_config), ''.cc-init-test'']) = [''t'', ''.cc-init-test'']"
  by code_simp

lemma example_target: "host_path (Abs (TargetDir example_config)) = [''t'']"
  by code_simp

lemma validateConfig_example:
  assumes "h [''t''] = Some (Dir d)" and "h [''t'', ''.cc-init-test''] = Some (File c m)"
    and "writable m"
  shows "validateConfig example_config h =
           (None, example_config,
            if writable d then h([''t'', ''.cc-init-test''] := None)
            else h([''t'', ''.cc-init-test''] \<mapsto> File [] m))"
proof -
  have a: "Abs (TargetDir example_config) = ''/t''" by code_simp
  have c: "example_config\<lparr>TargetDir := ''/t''\<rparr> = example_config" by (simp add: example_config_def)
  have t: "lookup h [''t''] = Inr (Dir d)" using assms(1) by (simp add: lookup_def)
  have p: "lookup h [''t'', ''.cc-init-test''] = Inr (File c m)"
    using assms(1,2) by (simp add: lookup_def)
  have cr: "os_Create [''t'', ''.cc-init-test''] h = (None, h([''t'', ''.cc-init-test''] \<mapsto> File [] m))"
    using t assms by (simp add: os_Create_def os_WriteFile_def)
  let ?h1 = "h([''t'', ''.cc-init-test''] \<mapsto> File [] m)"
  have t1: "lookup ?h1 [''t''] = Inr (Dir d)" using assms(1) by (simp add: lookup_def)
  have p1: "lookup ?h1 [''t'', ''.cc-init-test''] = Inr (File [] m)"
    using assms(1) by (simp add: lookup_def)
  have rm: "os_Remove [''t'', ''.cc-init-test''] ?h1 =
              (if \<not> writable d then (Some (PathError ''remove'' (show_path [''t'', ''.cc-init-test'']) EACCES), ?h1)
               else (None, ?h1([''t'', ''.cc-init-test''] := None)))"
    using os_Remove_file [OF p1, of d] t1 by simp
  have pr: "host_path (Join [''/t'', ''.cc-init-test'']) = [''t'', ''.cc-init-test'']" by code_simp
  have ht: "host_path ''/t'' = [''t'']" by code_simp
  have dr: "\<not> DryRun example_config" by (simp add: example_config_def)
  have td: "TargetDir example_config = ''/t''" by (simp add: example_config_def)
  show ?thesis
    unfolding validateConfig_def Let_def a c
    using t cr rm dr by (simp add: td pr ht os_Stat_def)
qed

section \<open>Counting what a run did\<close>








section \<open>Claims\<close>

text \<open>
  C9.  When the directory \<open>.claude\<close> is missing from the embedded tree or is empty,
  \<open>HasTemplates\<close> answers false (it has no error result), and \<open>Run\<close> returns the
  error "no template files found" at once: the engine, whose counters are all zero and
  whose error list is empty, and the host are returned as they were.
\<close>
theorem C9_no_templates:
  assumes "find_entry fsys ''.claude'' = None \<or> find_entry fsys ''.claude'' = Some (ADir ''.claude'' [])"
  shows "\<not> HasTemplates (tmpl (NewEngine fsys cfg)) \<and>
         Run (NewEngine fsys cfg) h =
           (Some (Errorf ''no template files found in embedded .claude directory'' [] None),
            NewEngine fsys cfg, h) \<and>
         stats (NewEngine fsys cfg) =
           \<lparr>FilesCreated = 0, FilesSkipped = 0, DirsCreated = 0, DirsSkipped = 0, Errors = []\<rparr>"
proof -
  have "\<not> HasTemplates (tmpl (NewEngine fsys cfg))"
    using assms
    by (auto simp: HasTemplates_def NewEngine_def NewTemplateManager_def embed_ReadDir_def
        embed_lookup_claude)
  then show ?thesis by (simp add: Run_def) (simp add: NewEngine_def)
qed

theorem C9_no_templates_witness:
  "(find_entry [ADir ''.claude'' []] ''.claude'' = None \<or>
    find_entry [ADir ''.claude'' []] ''.claude'' = Some (ADir ''.claude'' [])) \<and>
   \<not> HasTemplates (tmpl (NewEngine [ADir ''.claude'' []] example_config)) \<and>
   Run (NewEngine [ADir ''.claude'' []] example_config) example_host =
     (Some (Errorf ''no template files found in embedded .claude directory'' [] None),
      NewEngine [ADir ''.claude'' []] example_config, example_host)"
  using C9_no_templates [of "[ADir ''.claude'' []]" example_config example_host] by simp

text \<open>
  C1 (the program does not do this).  In the example the destination of the first entry,
  \<open>commands\<close>, is occupied by a regular file.  The error is appended to the error list,
  but \<open>processDirectory\<close> also returns it to the walk, which stops: \<open>Run\<close> reports
  "failed to process templates", and the later entries \<open>commands/ask.md\<close> and
  \<open>settings.json\<close> are not visited (nothing is created or counted for them).
\<close>

theorem C1_walk_aborts_on_entry_error:
  "(case Run (NewEngine example_assets example_config)
          (example_host([''t'', ''.claude''] \<mapsto> Dir 493,
                        [''t'', ''.claude'', ''commands''] \<mapsto> File ''x'' 420)) of
      (r, e, h) \<Rightarrow> (r, stats e, h [''t'', ''.claude'', ''settings.json''])) =
   (Some (Errorf ''failed to process templates: %w'' []
        (Some (Errorf ''path exists but is not a directory: %s'' [S ''/t/.claude/commands''] None))),
    \<lparr>FilesCreated = 0, FilesSkipped = 0, DirsCreated = 0, DirsSkipped = 0,
     Errors = [Errorf ''path exists but is not a directory: %s'' [S ''/t/.claude/commands''] None]\<rparr>,
    None)"
  by code_simp

text \<open>
  C2 as stated fails: a path with a parent-directory segment and an absolute path are
  both read, with the content of \<open>settings.json\<close> as the result.
\<close>

theorem C2_counterexample:
  "ReadFile (NewTemplateManager example_assets ''.claude'') ''commands/../settings.json'' = Inr ''{}'' \<and>
   ReadFile (NewTemplateManager example_assets ''.claude'') ''/settings.json'' = Inr ''{}''"
  by code_simp

text \<open>
  C2, amended.  \<open>ReadFile\<close> does not reject any path; it resolves the path lexically
  against the prefix, as \<open>path.Join\<close> does: empty elements and \<open>.\<close> are dropped and
  \<open>..\<close> removes the element before it (\<open>clean_elems\<close>, starting from the prefix).  If
  the elements that remain contain \<open>..\<close> (the path leaves the tree) or do not lead to
  an entry, the result is the not-exist error of the embedded file system for the
  joined name, wrapped as "failed to read embedded file"; if they lead to a directory,
  its is-a-directory error, wrapped likewise; if they lead to a file, its content.
  Hence a leading slash changes nothing, and neither does a valid element followed
  by \<open>..\<close>.
\<close>

theorem C2_ReadFile_resolves_lexically:
  "ReadFile (NewTemplateManager fsys ''.claude'') relPath =
     (let q = clean_elems False [''.claude''] (split_slash relPath);
          name = (if q = [] then ''.'' else join_slash q)
      in if ''..'' \<in> set q
         then Inl (Errorf ''failed to read embedded file %s: %w'' [S name]
                     (Some (PathError ''open'' name ErrNotExist)))
         else case descend (ADir ''.'' fsys) q of
                None \<Rightarrow> Inl (Errorf ''failed to read embedded file %s: %w'' [S name]
                             (Some (PathError ''open'' name ErrNotExist)))
              | Some (ADir n cs) \<Rightarrow>
                  Inl (Errorf ''failed to read embedded file %s: %w'' [S name]
                        (Some (PathError ''read'' name (ErrText ''is a directory''))))
              | Some (AFile n c) \<Rightarrow> Inr c) \<and>
   ReadFile (NewTemplateManager fsys ''.claude'') (CHR ''/'' # relPath) =
     ReadFile (NewTemplateManager fsys ''.claude'') relPath \<and>
   (valid_elem x \<longrightarrow>
      ReadFile (NewTemplateManager fsys ''.claude'') (x @ ''/../'' @ relPath) =
        ReadFile (NewTemplateManager fsys ''.claude'') relPath)"
  using ReadFile_lexical [of fsys relPath] ReadFile_leading_slash [of fsys relPath]
    ReadFile_dotdot [of x fsys relPath]
  by blast

theorem C2_ReadFile_resolves_lexically_witness:
  "valid_elem ''commands'' \<and>
   ReadFile (NewTemplateManager example_assets ''.claude'') (''commands'' @ ''/../'' @ ''settings.json'') =
     ReadFile (NewTemplateManager example_assets ''.claude'') ''settings.json'' \<and>
   ReadFile (NewTemplateManager example_assets ''.claude'') ''../secret'' =
     Inl (Errorf ''failed to read embedded file %s: %w'' [S ''secret'']
           (Some (PathError ''open'' ''secret'' ErrNotExist)))"
proof -
  have v: "valid_elem ''commands''" by (simp add: valid_elem_def)
  have e: "ReadFile (NewTemplateManager example_assets ''.claude'') ''../secret'' =
     Inl (Errorf ''failed to read embedded file %s: %w'' [S ''secret'']
           (Some (PathError ''open'' ''secret'' ErrNotExist)))"
    by code_simp
  from C2_ReadFile_resolves_lexically [of example_assets "''settings.json''" "''commands''"] v e
  show ?thesis by blast
qed

text \<open>
  C10 as stated fails: the target directory \<open>/t\<close> has mode \<open>0555\<close> and holds a writable
  file \<open>.cc-init-test\<close>.  Opening it with truncation succeeds, removing it is refused,
  the error of \<open>os.Remove\<close> is ignored: validation succeeds and the file is still there,
  empty.
\<close>

theorem C10_counterexample:
  "\<not> DryRun example_config \<and>
   validateConfig example_config
     [[''t''] \<mapsto> Dir 365, [''t'', ''.cc-init-test''] \<mapsto> File ''keep me'' 420] =
     (None, example_config,
      [[''t''] \<mapsto> Dir 365, [''t'', ''.cc-init-test''] \<mapsto> File [] 420])"
proof -
  have w: "\<not> writable 365" "writable 420" by (simp_all add: writable_def)
  show ?thesis
    using validateConfig_example [of "[[''t''] \<mapsto> Dir 365, [''t'', ''.cc-init-test''] \<mapsto> File ''keep me'' 420]"
        365 "''keep me''" 420] w
    by (simp add: example_config_def)
qed

text \<open>
  C10, amended.  When the configuration is not a dry run and validation succeeds, it has
  opened \<open>.cc-init-test\<close> in the target directory with \<open>os.Create\<close>, after which the file
  is empty also when it existed with content before, and has then called \<open>os.Remove\<close> on
  it without looking at the result.  If the directory that holds the file is writable,
  the removal succeeds and the host is the one before validation with nothing at that
  path.  If it is not, the removal fails, the file had existed before, and it stays
  behind empty.
\<close>

theorem C10_write_probe:
  assumes "\<not> DryRun cfg"
    and "validateConfig cfg h = (None, cfg', h')"
    and "probe = host_path (Join [Abs (TargetDir cfg), ''.cc-init-test''])"
  shows "\<exists>h1 m d. os_Create probe h = (None, h1) \<and> h1 probe = Some (File [] m) \<and>
           lookup h (butlast probe) = Inr (Dir d) \<and>
           (if writable d
            then os_Remove probe h1 = (None, h') \<and> h' = h(probe := None)
            else (\<exists>err. os_Remove probe h1 = (Some err, h1)) \<and> h' = h1 \<and>
                 (\<exists>c. h probe = Some (File c m)))"
proof -
  obtain r1 h1 where cr: "os_Create probe h = (r1, h1)" by (cases "os_Create probe h") auto
  have "r1 = None \<and> h' = snd (os_Remove probe h1)"
    using assms cr
    by (cases r1) (auto simp: validateConfig_def Let_def split: sum.splits if_splits)
  then have r1: "r1 = None" and h': "h' = snd (os_Remove probe h1)" by simp_all
  from cr r1 have wf: "os_WriteFile probe [] 438 h = (None, h1)" by (simp add: os_Create_def)
  from os_WriteFile_None [OF wf] obtain m where
    h1: "h1 = h(probe \<mapsto> File [] m)" and l1: "lookup h1 probe = Inr (File [] m)" by auto
  from os_WriteFile_parent [OF wf] obtain d where
    d: "lookup h (butlast probe) = Inr (Dir d)" and d1: "lookup h1 (butlast probe) = Inr (Dir d)"
    and nw: "h probe = None \<longrightarrow> writable d" by auto
  have p: "probe \<noteq> []" using os_WriteFile_cases [OF wf] by simp
  have rm: "os_Remove probe h1 =
              (if \<not> writable d then (Some (PathError ''remove'' (show_path probe) EACCES), h1)
               else (None, h1(probe := None)))"
    by (rule os_Remove_file [OF l1 d1 p])
  have up: "h1(probe := None) = h(probe := None)" by (simp add: h1)
  have ex: "\<not> writable d \<Longrightarrow> \<exists>c. h probe = Some (File c m)"
  proof -
    assume "\<not> writable d"
    then obtain n where n: "h probe = Some n" using nw by (cases "h probe") auto
    from os_WriteFile_existing [OF wf n] obtain c m' where "n = File c m'" and "h1 probe = Some (File [] m')"
      by auto
    then show ?thesis using n h1 by simp
  qed
  show ?thesis
  proof (cases "writable d")
    case True
    then show ?thesis using cr r1 h1 d rm h' up by simp
  next
    case False
    then show ?thesis using cr r1 h1 d rm h' ex by simp
  qed
qed

theorem C10_write_probe_witness:
  "\<not> DryRun example_config \<and>
   validateConfig example_config
     (example_host([''t'', ''.cc-init-test''] \<mapsto> File ''keep me'' 420)) =
     (None, example_config, example_host) \<and>
   writable 493 \<and> example_host [''t'', ''.cc-init-test''] = None"
proof -
  let ?h = "example_host([''t'', ''.cc-init-test''] \<mapsto> File ''keep me'' 420)"
  have d: "\<not> DryRun example_config" by (simp add: example_config_def)
  have w: "writable 493" "writable 420" by (simp_all add: writable_def)
  have n: "example_host [''t'', ''.cc-init-test''] = None" by (simp add: example_host_def)
  have "validateConfig example_config ?h = (None, example_config, ?h([''t'', ''.cc-init-test''] := None))"
    using validateConfig_example [of ?h 493 "''keep me''" 420] w by (simp add: example_host_def)
  moreover have "?h([''t'', ''.cc-init-test''] := None) = example_host" using n by (simp add: fun_upd_idem)
  ultimately have v: "validateConfig example_config ?h = (None, example_config, example_host)" by simp
  have l: "lookup ?h (butlast [''t'', ''.cc-init-test'']) = Inr (Dir 493)"
    by (simp add: lookup_def example_host_def)
  from C10_write_probe [OF d v example_probe [symmetric]] l w
  have "example_host = ?h([''t'', ''.cc-init-test''] := None)" by auto
  then show ?thesis using d v w n by simp
qed

text \<open>
  C4.  Whatever can be reached in the host before a run (a file with its content and
  mode, a directory with its mode) is there unchanged after the run, however the run
  ends.  A file entry whose destination is an existing regular file is skipped without
  the template or the file's content being read: the result does not depend on the
  content.
\<close>

theorem C4_existing_unchanged:
  assumes "Run (NewEngine fsys cfg) h = (r, e', h')"
  shows "(\<forall>p n. lookup h p = Inr n \<longrightarrow> lookup h' p = Inr n) \<and>
         (\<forall>src tp c m st h0. lookup h0 tp = Inr (File c m) \<longrightarrow>
            processFile (NewEngine fsys cfg) src tp (st, h0) =
              (None, st\<lparr>FilesSkipped := FilesSkipped st + 1\<rparr>, h0))"
proof -
  have "ext h h'" using assms by (rule Run_host)
  then show ?thesis by (simp add: ext_def processFile_exists)
qed

theorem C4_existing_unchanged_witness:
  "lookup (example_host([''t'', ''.claude''] \<mapsto> Dir 493,
                        [''t'', ''.claude'', ''settings.json''] \<mapsto> File ''old'' 420))
          [''t'', ''.claude'', ''settings.json''] = Inr (File ''old'' 420) \<and>
   lookup (snd (snd (Run (NewEngine example_assets example_config)
             (example_host([''t'', ''.claude''] \<mapsto> Dir 493,
                           [''t'', ''.claude'', ''settings.json''] \<mapsto> File ''old'' 420)))))
          [''t'', ''.claude'', ''settings.json''] = Inr (File ''old'' 420)"
proof -
  let ?h = "example_host([''t'', ''.claude''] \<mapsto> Dir 493,
                         [''t'', ''.claude'', ''settings.json''] \<mapsto> File ''old'' 420)"
  obtain r e' h' where run: "Run (NewEngine example_assets example_config) ?h = (r, e', h')"
    by (cases "Run (NewEngine example_assets example_config) ?h") auto
  have l: "lookup ?h [''t'', ''.claude'', ''settings.json''] = Inr (File ''old'' 420)" by code_simp
  from C4_existing_unchanged [OF run] l
  have "lookup h' [''t'', ''.claude'', ''settings.json''] = Inr (File ''old'' 420)" by blast
  then show ?thesis using l run by simp
qed



end
